theory Spec2Isabelle
  imports Complex_Main "HOL-Library.AList" "HOL-Library.Multiset"
begin

section \<open>Python values shared by all modules\<close>

text \<open>
  The exceptions that the modelled code can raise. A function that can raise returns
  \<open>error + 'a\<close>, with \<open>Inl\<close> for the exception.
\<close>

datatype error =
    TypeError | KeyError | ValueError | ZeroDivisionError
  | IndexError | AttributeError | AssertionError

text \<open>
  \<open>AISMessage\<close> is built in \<open>search_agent.py\<close> with the keyword arguments
  \<open>sender, timestamp, lat, lon, COG, SOG\<close>. Python floats are idealised as reals.
\<close>

record AISMessage =
  sender :: int
  timestamp :: real
  lat :: real
  lon :: real
  COG :: real
  SOG :: real

type_synonym track = "AISMessage list"

section \<open>\<open>trajectories/rules.py\<close>\<close>

subsection \<open>Function objects as \<open>inspect.signature\<close> sees them\<close>

datatype annotation = ListAISMessage | BoolAnn | EmptyAnn | OtherAnn string

datatype param_kind =
    POSITIONAL_ONLY | POSITIONAL_OR_KEYWORD | VAR_POSITIONAL | KEYWORD_ONLY | VAR_KEYWORD

record Parameter =
  name :: string
  kind :: param_kind
  has_default :: bool
  annotation :: annotation

record Signature =
  parameters :: "Parameter list"
  return_annotation :: annotation

text \<open>
  An object handed to \<open>Recipe\<close>: either something that is not callable, or a callable. A
  callable is given by two things that Python keeps apart. The first is what
  \<open>inspect.signature\<close> reports for it: a signature, or nothing when \<open>signature\<close> raises
  ValueError (as for the builtin type \<open>int\<close>). The second is what the call \<open>func(track)\<close>
  does: it returns a truth value or raises, and a failed binding of the argument is one of
  the ways to raise (TypeError). The reported signature need not be the one that the call
  binds, since \<open>inspect.signature\<close> follows \<open>__wrapped__\<close> and \<open>__signature__\<close>.
\<close>

datatype pyobj =
    NotCallable
  | Callable "Signature option" "track \<Rightarrow> error + bool"

fun call :: "pyobj \<Rightarrow> track \<Rightarrow> error + bool" where
  "call NotCallable t = Inl TypeError"
| "call (Callable reported run) t = run t"

text \<open>
  A function written with \<open>def\<close> or \<open>lambda\<close>: it reports its own signature, and the call
  with one positional argument and no keyword argument binds as Python binds it, to the
  first positional parameter, or to \<open>*args\<close> when there is none; every other parameter
  that is positional or keyword-only must have a default, else the call raises TypeError
  and the body does not run.
\<close>

definition is_positional :: "Parameter \<Rightarrow> bool" where
  "is_positional p = (kind p = POSITIONAL_ONLY \<or> kind p = POSITIONAL_OR_KEYWORD)"

definition binds_one_positional :: "Signature \<Rightarrow> bool" where
  "binds_one_positional sg =
     (let ps = parameters sg; pos = filter is_positional ps
      in (if pos = [] then list_ex (\<lambda>p. kind p = VAR_POSITIONAL) ps
          else list_all has_default (tl pos))
         \<and> list_all has_default (filter (\<lambda>p. kind p = KEYWORD_ONLY) ps))"

definition def_function :: "Signature \<Rightarrow> (track \<Rightarrow> error + bool) \<Rightarrow> pyobj" where
  "def_function sg body =
     Callable (Some sg) (\<lambda>t. if binds_one_positional sg then body t else Inl TypeError)"

subsection \<open>\<open>_check_signature\<close> and \<open>Recipe\<close>\<close>

definition check_signature :: "pyobj \<Rightarrow> error + unit" where
  "check_signature func =
     (case func of
        NotCallable \<Rightarrow> Inl TypeError
      | Callable None run \<Rightarrow> Inl ValueError
      | Callable (Some sg) run \<Rightarrow>
          if length (parameters sg) \<noteq> 1 then Inl TypeError
          else (case find (\<lambda>p. name p = ''track'') (parameters sg) of
                  None \<Rightarrow> Inl KeyError
                | Some p \<Rightarrow>
                    if annotation p \<noteq> ListAISMessage then Inl TypeError
                    else if return_annotation sg \<noteq> BoolAnn then Inl TypeError
                    else Inr ()))"

record Recipe =
  funcs :: "pyobj list"

fun check_each :: "pyobj list \<Rightarrow> error + unit" where
  "check_each [] = Inr ()"
| "check_each (func # rest) =
     (case check_signature func of Inl e \<Rightarrow> Inl e | Inr u \<Rightarrow> check_each rest)"

definition Recipe_init :: "pyobj list \<Rightarrow> error + Recipe" where
  "Recipe_init fs = (case check_each fs of Inl e \<Rightarrow> Inl e | Inr u \<Rightarrow> Inr \<lparr>funcs = fs\<rparr>)"

text \<open>
  \<open>all(func(track) for func in self.funcs)\<close>: the generator is consumed from the left and
  \<open>all\<close> stops at the first false result; an exception of a call propagates.
\<close>

fun cooked :: "pyobj list \<Rightarrow> track \<Rightarrow> error + bool" where
  "cooked [] track = Inr True"
| "cooked (func # rest) track =
     (case call func track of
        Inl e \<Rightarrow> Inl e
      | Inr b \<Rightarrow> if b then cooked rest track else Inr False)"

definition cook :: "Recipe \<Rightarrow> track \<Rightarrow> error + bool" where
  "cook self = cooked (funcs self)"

subsection \<open>Rule functions\<close>

definition too_few_obs :: "track \<Rightarrow> int \<Rightarrow> bool" where
  "too_few_obs track n = (int (length track) < n)"

text \<open>
  \<open>np.ptp\<close> is the maximum minus the minimum; on an empty sequence numpy raises ValueError.
\<close>

definition ptp :: "real list \<Rightarrow> error + real" where
  "ptp xs = (if xs = [] then Inl ValueError else Inr (Max (set xs) - Min (set xs)))"

definition too_small_span :: "track \<Rightarrow> real \<Rightarrow> error + bool" where
  "too_small_span track span' =
     (case ptp (map lat track) of
        Inl e \<Rightarrow> Inl e
      | Inr lat_span \<Rightarrow>
          (case ptp (map lon track) of
             Inl e \<Rightarrow> Inl e
           | Inr lon_span \<Rightarrow> Inr (lat_span > span' \<and> lon_span > span')))"

text \<open>The signature \<open>(track: list[AISMessage]) -> bool\<close> of a plain one-argument rule.\<close>

definition rule_signature :: Signature where
  "rule_signature =
     \<lparr>parameters = [\<lparr>name = ''track'', kind = POSITIONAL_OR_KEYWORD, has_default = False,
                      annotation = ListAISMessage\<rparr>],
      return_annotation = BoolAnn\<rparr>"

text \<open>The signature \<open>(*, track: list[AISMessage]) -> bool\<close>.\<close>

definition keyword_only_signature :: Signature where
  "keyword_only_signature =
     \<lparr>parameters = [\<lparr>name = ''track'', kind = KEYWORD_ONLY, has_default = False,
                      annotation = ListAISMessage\<rparr>],
      return_annotation = BoolAnn\<rparr>"

text \<open>What the checks of \<open>_check_signature\<close> accept, stated on the signature.\<close>

definition well_formed :: "pyobj \<Rightarrow> bool" where
  "well_formed func =
     (case func of
        NotCallable \<Rightarrow> False
      | Callable None run \<Rightarrow> False
      | Callable (Some sg) run \<Rightarrow>
          (case parameters sg of
             [p] \<Rightarrow> name p = ''track'' \<and> annotation p = ListAISMessage
                    \<and> return_annotation sg = BoolAnn
           | _ \<Rightarrow> False))"

text \<open>
  Example rules: one that always returns true and one that always returns false, both
  declared \<open>def r(track: list[AISMessage]) -> bool\<close>; one declared
  \<open>def r(*, track: list[AISMessage]) -> bool\<close>, whose only parameter is keyword-only; and
  a function of two parameters decorated with \<open>functools.wraps\<close> of a plain rule, for
  which \<open>inspect.signature\<close> reports the signature of the plain rule while a call with one
  argument misses the second parameter.
\<close>

definition always_true :: pyobj where
  "always_true = def_function rule_signature (\<lambda>t. Inr True)"

definition always_false :: pyobj where
  "always_false = def_function rule_signature (\<lambda>t. Inr False)"

definition keyword_only_rule :: pyobj where
  "keyword_only_rule = def_function keyword_only_signature (\<lambda>t. Inr True)"

definition wrapped_rule :: pyobj where
  "wrapped_rule = Callable (Some rule_signature) (\<lambda>t. Inl TypeError)"

definition example_msg :: "real \<Rightarrow> real \<Rightarrow> real \<Rightarrow> AISMessage" where
  "example_msg t la lo = \<lparr>sender = 111, timestamp = t, lat = la, lon = lo, COG = 0, SOG = 0\<rparr>"

section \<open>Vessels\<close>

text \<open>
  \<open>TargetShip\<close> is constructed in \<open>search_agent.py\<close> with the keyword arguments
  \<open>ts, mmsi, ship_type, length, tracks\<close>: the reference timestamp (or \<open>None\<close>), the
  vessel id, the ship types and the length found in the static messages, and the list of
  tracks. The length is a number or a numpy array. \<open>Targets\<close> is \<open>dict[MMSI, TargetShip]\<close>,
  kept as an association list in insertion order.
\<close>

datatype ship_length = Scalar real | Array "real list"

record TargetShip =
  ts :: "real option"
  mmsi :: int
  ship_type :: "int list"
  ship_length :: ship_length
  tracks :: "track list"

type_synonym Targets = "(int \<times> TargetShip) list"

section \<open>\<open>trajectories/inspect.py\<close>\<close>

text \<open>
  \<open>print_rejection_rate\<close> formats \<open>n_rejected / n_total * 100\<close> for the log: the division of
  two Python integers raises ZeroDivisionError when \<open>n_total\<close> is zero.
\<close>

definition print_rejection_rate :: "nat \<Rightarrow> nat \<Rightarrow> error + unit" where
  "print_rejection_rate n_rejected n_total =
     (if n_total = 0 then Inl ZeroDivisionError else Inr ())"

record Inspector =
  data :: Targets
  recipe :: "track \<Rightarrow> error + bool"
  rejected :: Targets
  accepted :: Targets

definition Inspector_init :: "Targets \<Rightarrow> Recipe \<Rightarrow> Inspector" where
  "Inspector_init d r = \<lparr>data = d, recipe = cook r, rejected = [], accepted = []\<rparr>"

text \<open>
  \<open>_copy_track\<close>: when the vessel id is not a key of the destination, the entry is a deep
  copy of the vessel with an empty list of tracks; then the track is appended to the
  tracks of the entry.
\<close>

definition copy_track :: "TargetShip \<Rightarrow> Targets \<Rightarrow> track \<Rightarrow> Targets" where
  "copy_track vessel target track =
     (let target1 = (if map_of target (mmsi vessel) = None
                     then AList.update (mmsi vessel) (vessel\<lparr>tracks := []\<rparr>) target
                     else target)
      in AList.map_entry (mmsi vessel) (\<lambda>v. v\<lparr>tracks := tracks v @ [track]\<rparr>) target1)"

definition reject_track :: "Inspector \<Rightarrow> TargetShip \<Rightarrow> track \<Rightarrow> Inspector" where
  "reject_track self vessel track = self\<lparr>rejected := copy_track vessel (rejected self) track\<rparr>"

definition accept_track :: "Inspector \<Rightarrow> TargetShip \<Rightarrow> track \<Rightarrow> Inspector" where
  "accept_track self vessel track = self\<lparr>accepted := copy_track vessel (accepted self) track\<rparr>"

text \<open>
  \<open>_inspect_impl\<close>: the outer loop runs over the items of \<open>targets\<close> and ignores the keys,
  the inner loop over the tracks of the vessel; \<open>_n\<close> counts the tracks. An exception of
  the recipe propagates.
\<close>

fun inspect_tracks :: "Inspector \<Rightarrow> TargetShip \<Rightarrow> track list \<Rightarrow> nat \<Rightarrow> error + Inspector \<times> nat" where
  "inspect_tracks self target_ship [] n = Inr (self, n)"
| "inspect_tracks self target_ship (track # rest) n =
     (case recipe self track of
        Inl e \<Rightarrow> Inl e
      | Inr b \<Rightarrow>
          if b then inspect_tracks (reject_track self target_ship track) target_ship rest (n + 1)
          else inspect_tracks (accept_track self target_ship track) target_ship rest (n + 1))"

fun inspect_ships :: "Inspector \<Rightarrow> (int \<times> TargetShip) list \<Rightarrow> nat \<Rightarrow> error + Inspector \<times> nat" where
  "inspect_ships self [] n = Inr (self, n)"
| "inspect_ships self ((k, target_ship) # rest) n =
     (case inspect_tracks self target_ship (tracks target_ship) n of
        Inl e \<Rightarrow> Inl e
      | Inr (self1, n1) \<Rightarrow> inspect_ships self1 rest n1)"

definition inspect_impl :: "Inspector \<Rightarrow> Targets \<Rightarrow> error + Inspector \<times> Targets \<times> Targets \<times> nat" where
  "inspect_impl self targets =
     (case inspect_ships self targets 0 of
        Inl e \<Rightarrow> Inl e
      | Inr (self1, n) \<Rightarrow> Inr (self1, accepted self1, rejected self1, n))"

text \<open>The branch \<open>njobs == 1\<close> of \<open>Inspector.inspect\<close>.\<close>

definition inspect_njobs1 :: "Inspector \<Rightarrow> error + Targets \<times> Targets" where
  "inspect_njobs1 self =
     (case inspect_impl self (data self) of
        Inl e \<Rightarrow> Inl e
      | Inr (self1, a, r, n) \<Rightarrow>
          (let n_rejected = sum_list (map (\<lambda>r. length (tracks r)) (map snd r))
           in case print_rejection_rate n_rejected n of
                Inl e \<Rightarrow> Inl e
              | Inr u \<Rightarrow> Inr (a, r)))"

text \<open>
  What routing the tracks \<open>trs\<close> of the vessel \<open>v\<close> to a destination does to the mapping
  it denotes, and what routing the tracks that satisfy \<open>P\<close> does for a whole collection.
\<close>

definition appm :: "(int \<rightharpoonup> TargetShip) \<Rightarrow> TargetShip \<Rightarrow> track list \<Rightarrow> (int \<rightharpoonup> TargetShip)" where
  "appm m v trs =
     (if trs = [] then m
      else m(mmsi v \<mapsto> (case m (mmsi v) of
                            None \<Rightarrow> v\<lparr>tracks := trs\<rparr>
                          | Some w \<Rightarrow> w\<lparr>tracks := tracks w @ trs\<rparr>)))"

definition route :: "(track \<Rightarrow> bool) \<Rightarrow> (int \<rightharpoonup> TargetShip) \<Rightarrow> Targets \<Rightarrow> (int \<rightharpoonup> TargetShip)" where
  "route P m targets = foldl (\<lambda>m kv. appm m (snd kv) (filter P (tracks (snd kv)))) m targets"

text \<open>
  Examples: a vessel with a track of two and a track of five reports, a vessel without
  tracks, and the rule \<open>too_few_obs\<close> with \<open>n = 3\<close>.
\<close>

definition example_track2 :: track where
  "example_track2 = [example_msg 0 0 0, example_msg 100 1 1]"

definition example_track5 :: track where
  "example_track5 = [example_msg 200 2 2, example_msg 300 3 3, example_msg 400 4 4,
                     example_msg 500 5 5, example_msg 600 6 6]"

definition example_ship :: TargetShip where
  "example_ship = \<lparr>ts = None, mmsi = 111, ship_type = [70], ship_length = Scalar 120,
                    tracks = [example_track2, example_track5]\<rparr>"

definition idle_ship :: TargetShip where
  "idle_ship = \<lparr>ts = None, mmsi = 222, ship_type = [], ship_length = Array [], tracks = []\<rparr>"

definition few_obs_rule :: pyobj where
  "few_obs_rule = def_function rule_signature (\<lambda>track. Inr (too_few_obs track 3))"

section \<open>\<open>tsea/search_agent.py\<close>\<close>

subsection \<open>Input data and collaborators\<close>

text \<open>
  A row of the dataframe of dynamic messages, with the columns that the search agent reads
  (timestamp, MMSI, lat, lon, speed, course); the timestamp is the pandas timestamp in
  seconds since the epoch, with its fraction. A row of the static messages has the columns
  MMSI, ship type, to-bow and to-stern.
\<close>

record Row =
  r_timestamp :: real
  r_mmsi :: int
  r_lat :: real
  r_lon :: real
  r_speed :: real
  r_course :: real

type_synonym DataFrame = "Row list"

record StaticRow =
  s_mmsi :: int
  s_ship_type :: int
  s_to_bow :: real
  s_to_stern :: real

record TimePosition =
  tp_timestamp :: real
  tp_lat :: real
  tp_lon :: real

text \<open>
  The agent, as far as target-vessel construction reads it: its static messages, and the
  two functions it calls that are not part of \<open>search_agent.py\<close>, namely
  \<open>split.is_split_point\<close> (the segmentation test on the last report of the current track
  and the incoming report) and \<open>DataFrame.sort_values(by=timestamp)\<close> (pandas; its
  default algorithm is not stable, so the order of rows with equal timestamps is left
  open here).
\<close>

record SearchAgent =
  static_msgs :: "StaticRow list"
  is_split_point :: "AISMessage \<Rightarrow> AISMessage \<Rightarrow> bool"
  sort_values :: "DataFrame \<Rightarrow> DataFrame"

definition and_then :: "error + 'a \<Rightarrow> ('a \<Rightarrow> error + 'b) \<Rightarrow> error + 'b" where
  "and_then r f = (case r of Inl e \<Rightarrow> Inl e | Inr x \<Rightarrow> f x)"

text \<open>\<open>Series.unique()\<close>: the distinct values in order of first appearance.\<close>

definition pd_unique :: "'a list \<Rightarrow> 'a list" where
  "pd_unique xs = rev (remdups (rev xs))"

text \<open>\<open>np.unique\<close>: the distinct values, sorted.\<close>

definition np_unique :: "'a::linorder list \<Rightarrow> 'a list" where
  "np_unique xs = sort (remdups xs)"

text \<open>\<open>int(x)\<close> on a float truncates towards zero.\<close>

definition py_int :: "real \<Rightarrow> int" where
  "py_int x = (if 0 \<le> x then \<lfloor>x\<rfloor> else \<lceil>x\<rceil>)"

text \<open>\<open>xs[-1]\<close> and \<open>xs[-1].append(x)\<close>; both raise IndexError on the empty list.\<close>

definition py_last :: "'a list \<Rightarrow> error + 'a" where
  "py_last xs = (if xs = [] then Inl IndexError else Inr (last xs))"

definition append_to_last :: "'a list list \<Rightarrow> 'a \<Rightarrow> error + 'a list list" where
  "append_to_last xss x =
     (if xss = [] then Inl IndexError else Inr (butlast xss @ [last xss @ [x]]))"

definition get_ship_type :: "SearchAgent \<Rightarrow> int \<Rightarrow> int list" where
  "get_ship_type self m =
     np_unique (map s_ship_type (filter (\<lambda>s. s_mmsi s = m) (static_msgs self)))"

definition get_ship_length :: "SearchAgent \<Rightarrow> int \<Rightarrow> ship_length" where
  "get_ship_length self m =
     (let raw = filter (\<lambda>s. s_mmsi s = m) (static_msgs self);
          sl = np_unique (map (\<lambda>s. s_to_bow s + s_to_stern s) raw)
      in if length sl > 1 then Scalar (Max (set sl)) else Array sl)"

text \<open>
  The constructor call of both paths:
  \<open>TargetShip(ts=..., mmsi=..., ship_type=self._get_ship_type(mmsi),
  length=self._get_ship_length(mmsi), tracks=...)\<close>.
\<close>

definition make_target_ship ::
  "SearchAgent \<Rightarrow> real option \<Rightarrow> int \<Rightarrow> track list \<Rightarrow> TargetShip" where
  "make_target_ship self t m trs =
     \<lparr>ts = t, mmsi = m, ship_type = get_ship_type self m,
      ship_length = get_ship_length self m, tracks = trs\<rparr>"

subsection \<open>The single-process path\<close>

definition sp_message :: "Row \<Rightarrow> AISMessage" where
  "sp_message row =
     \<lparr>sender = r_mmsi row, timestamp = r_timestamp row, lat = r_lat row, lon = r_lon row,
      COG = r_course row, SOG = r_speed row\<rparr>"

text \<open>
  The test \<open>split.is_split_point(tracks[-1][-1], msg)\<close>, followed by
  \<open>tracks.append([])\<close> when it holds.
\<close>

definition split_tracks ::
  "SearchAgent \<Rightarrow> track list \<Rightarrow> AISMessage \<Rightarrow> error + track list" where
  "split_tracks self trs msg =
     and_then (py_last trs) (\<lambda>current.
     and_then (py_last current) (\<lambda>previous.
       Inr (if is_split_point self previous msg then trs @ [[]] else trs)))"

definition sp_step ::
  "SearchAgent \<Rightarrow> TimePosition option \<Rightarrow> Targets \<Rightarrow> Row \<Rightarrow> error + Targets" where
  "sp_step self tpos targets row =
     (let msg = sp_message row in
      case map_of targets (r_mmsi row) of
        None \<Rightarrow>
          Inr (AList.update (r_mmsi row)
                 (make_target_ship self (map_option tp_timestamp tpos) (r_mmsi row) [[msg]])
                 targets)
      | Some v \<Rightarrow>
          and_then (split_tracks self (tracks v) msg) (\<lambda>trs.
          and_then (append_to_last trs msg) (\<lambda>trs1.
            Inr (AList.update (r_mmsi row) (v\<lparr>tracks := trs1\<rparr>) targets))))"

fun sp_loop ::
  "SearchAgent \<Rightarrow> TimePosition option \<Rightarrow> Targets \<Rightarrow> Row list \<Rightarrow> error + Targets" where
  "sp_loop self tpos targets [] = Inr targets"
| "sp_loop self tpos targets (row # rows) =
     and_then (sp_step self tpos targets row) (\<lambda>targets1. sp_loop self tpos targets1 rows)"

definition remove_single_obs :: "Targets \<Rightarrow> Targets" where
  "remove_single_obs targets =
     map (\<lambda>(k, tgt). (k, tgt\<lparr>tracks := filter (\<lambda>track. 2 \<le> length track) (tracks tgt)\<rparr>)) targets"

text \<open>
  \<open>track[0].timestamp < tpos.timestamp < track[-1].timestamp\<close>: the first report is read
  first (IndexError on an empty track), then the timestamp of \<open>tpos\<close> (AttributeError on
  \<open>None\<close>).
\<close>

definition overlaps_search_date :: "track \<Rightarrow> TimePosition option \<Rightarrow> error + bool" where
  "overlaps_search_date track tpos =
     (case track of
        [] \<Rightarrow> Inl IndexError
      | first # rest \<Rightarrow>
          (case tpos of
             None \<Rightarrow> Inl AttributeError
           | Some tp \<Rightarrow>
               Inr (timestamp first < tp_timestamp tp
                    \<and> tp_timestamp tp < timestamp (last track))))"

fun keep_overlapping :: "track list \<Rightarrow> TimePosition option \<Rightarrow> error + track list" where
  "keep_overlapping [] tpos = Inr []"
| "keep_overlapping (track # rest) tpos =
     and_then (overlaps_search_date track tpos) (\<lambda>b.
     and_then (keep_overlapping rest tpos) (\<lambda>to_keep.
       Inr (if b then track # to_keep else to_keep)))"

fun filter_overlapping :: "Targets \<Rightarrow> TimePosition option \<Rightarrow> error + Targets" where
  "filter_overlapping [] tpos = Inr []"
| "filter_overlapping ((k, tgt) # rest) tpos =
     and_then (keep_overlapping (tracks tgt) tpos) (\<lambda>to_keep.
     and_then (filter_overlapping rest tpos) (\<lambda>rest1.
       Inr ((k, tgt\<lparr>tracks := to_keep\<rparr>) # rest1)))"

text \<open>
  \<open>_sp_construct_target_vessels\<close>. The call \<open>tgt.find_shell()\<close> of both paths is left
  out: the method belongs to \<open>TargetShip\<close>, whose code is not part of \<open>search_agent.py\<close>;
  it derives the shell (the first and the last report of the vessel) and is taken to
  return and to leave the tracks as they are.
\<close>

definition sp_construct_target_vessels ::
  "SearchAgent \<Rightarrow> DataFrame \<Rightarrow> TimePosition option \<Rightarrow> bool \<Rightarrow> error + Targets" where
  "sp_construct_target_vessels self df tpos overlap =
     and_then (sp_loop self tpos [] (sort_values self df)) (\<lambda>targets.
       let targets1 = remove_single_obs targets
       in if overlap then filter_overlapping targets1 tpos else Inr targets1)"

subsection \<open>The multiprocess path\<close>

definition distribute :: "DataFrame \<Rightarrow> DataFrame list" where
  "distribute df =
     map (\<lambda>m. filter (\<lambda>row. r_mmsi row = m) df) (pd_unique (map r_mmsi df))"

definition mp_message :: "int \<Rightarrow> Row \<Rightarrow> AISMessage" where
  "mp_message MMSI row =
     \<lparr>sender = MMSI, timestamp = of_int (py_int (r_timestamp row)), lat = r_lat row,
      lon = r_lon row, COG = r_course row, SOG = r_speed row\<rparr>"

text \<open>The loop over the rows of one vessel; the state is \<open>tv.tracks\<close> and \<open>first\<close>.\<close>

fun impl_loop ::
  "SearchAgent \<Rightarrow> bool \<Rightarrow> int \<Rightarrow> track list \<Rightarrow> bool \<Rightarrow> Row list \<Rightarrow> error + track list" where
  "impl_loop self skip_tsplit MMSI trs first [] = Inr trs"
| "impl_loop self skip_tsplit MMSI trs first (row # rows) =
     (let msg = mp_message MMSI row in
      if first then
        and_then (append_to_last trs msg) (\<lambda>trs1.
          impl_loop self skip_tsplit MMSI trs1 False rows)
      else
        and_then (if \<not> skip_tsplit then split_tracks self trs msg else Inr trs) (\<lambda>trs1.
        and_then (append_to_last trs1 msg) (\<lambda>trs2.
          impl_loop self skip_tsplit MMSI trs2 False rows)))"

text \<open>
  \<open>for track in tv.tracks: if len(track) < 2: tv.tracks.remove(track)\<close>. The list iterator
  keeps an index: each round reads the element at the index, if there is one, and advances;
  \<open>remove\<close> deletes the first element equal to the track, which shifts the later elements
  one place down.
\<close>

function remove_short :: "nat \<Rightarrow> 'a list list \<Rightarrow> 'a list list" where
  "remove_short i trs =
     (if i < length trs then
        (if length (trs ! i) < 2 then remove_short (i + 1) (remove1 (trs ! i) trs)
         else remove_short (i + 1) trs)
      else trs)"
  by pat_completeness auto
termination
proof (relation "measure (\<lambda>(i, trs). length trs - i)")
  show "wf (measure (\<lambda>(i, trs). length trs - i))" by simp
next
  fix i :: nat and trs :: "'a list list"
  assume "i < length trs"
  then have "trs ! i \<in> set trs" by simp
  then have "length (remove1 (trs ! i) trs) = length trs - 1"
    by (simp add: length_remove1)
  then show "((i + 1, remove1 (trs ! i) trs), (i, trs)) \<in> measure (\<lambda>(i, trs). length trs - i)"
    using \<open>i < length trs\<close> by simp
next
  fix i :: nat and trs :: "'a list list"
  assume "i < length trs"
  then show "((i + 1, trs), (i, trs)) \<in> measure (\<lambda>(i, trs). length trs - i)"
    by simp
qed

definition impl_construct_target_vessel ::
  "SearchAgent \<Rightarrow> DataFrame \<Rightarrow> bool \<Rightarrow> error + Targets" where
  "impl_construct_target_vessel self df skip_tsplit =
     (case pd_unique (map r_mmsi df) of
        [MMSI] \<Rightarrow>
          and_then (impl_loop self skip_tsplit MMSI [[]] True (sort_values self df)) (\<lambda>trs.
            Inr [(MMSI, make_target_ship self None MMSI (remove_short 0 trs))])
      | _ \<Rightarrow> Inl AssertionError)"

text \<open>
  \<open>pool.starmap\<close> returns the results in the order of the frames, or raises what a worker
  raised; \<open>targets.update(res)\<close> then stores the entry of each result.
\<close>

fun starmap_impl :: "SearchAgent \<Rightarrow> bool \<Rightarrow> DataFrame list \<Rightarrow> error + Targets list" where
  "starmap_impl self skip_tsplit [] = Inr []"
| "starmap_impl self skip_tsplit (frame # frames) =
     and_then (impl_construct_target_vessel self frame skip_tsplit) (\<lambda>res.
     and_then (starmap_impl self skip_tsplit frames) (\<lambda>results. Inr (res # results)))"

definition dict_update :: "Targets \<Rightarrow> Targets \<Rightarrow> Targets" where
  "dict_update targets res = fold (\<lambda>(k, v) t. AList.update k v t) res targets"

definition mp_construct_target_vessels ::
  "SearchAgent \<Rightarrow> DataFrame \<Rightarrow> int \<Rightarrow> bool \<Rightarrow> error + Targets" where
  "mp_construct_target_vessels self df njobs skip_tsplit =
     (if njobs < 1 then Inl ValueError
      else and_then (starmap_impl self skip_tsplit (distribute df)) (\<lambda>results.
             Inr (fold (\<lambda>res targets. dict_update targets res) results [])))"

definition construct_target_vessels ::
  "SearchAgent \<Rightarrow> DataFrame \<Rightarrow> TimePosition option \<Rightarrow> bool \<Rightarrow> int \<Rightarrow> bool \<Rightarrow> error + Targets" where
  "construct_target_vessels self df tpos overlap njobs skip_tsplit =
     (if njobs = 1 then
        (if tpos = None then Inl AssertionError
         else sp_construct_target_vessels self df tpos overlap)
      else mp_construct_target_vessels self df njobs skip_tsplit)"

declare remove_short.simps [simp del]

subsection \<open>Segmentation as a function of the reports of one vessel\<close>

text \<open>
  One round of either loop on a vessel that already has a report: split after the last
  report when the test holds, then append the report to the last track. \<open>segment\<close> runs
  the rounds over the reports of a vessel in order, starting with the first report alone.
\<close>

definition segment_step :: "SearchAgent \<Rightarrow> track list \<Rightarrow> AISMessage \<Rightarrow> track list" where
  "segment_step self trs msg =
     (let trs1 = (if is_split_point self (last (last trs)) msg then trs @ [[]] else trs)
      in butlast trs1 @ [last trs1 @ [msg]])"

definition segment :: "SearchAgent \<Rightarrow> AISMessage list \<Rightarrow> track list" where
  "segment self msgs =
     (case msgs of [] \<Rightarrow> [] | m # ms \<Rightarrow> foldl (segment_step self) [[m]] ms)"

definition open_tracks :: "'a list list \<Rightarrow> bool" where
  "open_tracks trs = (trs \<noteq> [] \<and> last trs \<noteq> [])"

text \<open>
  The mapping that the loop of the single-process path builds from the rows it has read,
  and the entry that the multiprocess path builds for the vessel \<open>m\<close>.
\<close>

definition sp_map ::
  "SearchAgent \<Rightarrow> TimePosition option \<Rightarrow> Row list \<Rightarrow> int \<Rightarrow> TargetShip option" where
  "sp_map self tpos rows k =
     (if k \<in> r_mmsi ` set rows
      then Some (make_target_ship self (map_option tp_timestamp tpos) k
                   (segment self (map sp_message (filter (\<lambda>row. r_mmsi row = k) rows))))
      else None)"

definition mp_vessel :: "SearchAgent \<Rightarrow> DataFrame \<Rightarrow> int \<Rightarrow> TargetShip" where
  "mp_vessel self df m =
     make_target_ship self None m
       (remove_short 0
          (segment self
             (map (mp_message m) (sort_values self (filter (\<lambda>row. r_mmsi row = m) df)))))"

subsection \<open>Kinematic corrections\<close>

text \<open>
  Both corrections loop over \<open>pairwise(target.tracks)\<close>, so the two values of a pair are
  elements of the list of tracks. A value is modelled as Python sees it: a report, whose
  attributes can be read and assigned, or a list of reports, on which reading or
  assigning \<open>lat\<close>, \<open>lon\<close>, \<open>SOG\<close>, \<open>COG\<close> or \<open>timestamp\<close> raises AttributeError.
\<close>

datatype pyval = Message AISMessage | TrackList track

definition attr :: "(AISMessage \<Rightarrow> 'a) \<Rightarrow> pyval \<Rightarrow> error + 'a" where
  "attr field obj =
     (case obj of Message m \<Rightarrow> Inr (field m) | TrackList t \<Rightarrow> Inl AttributeError)"

definition set_SOG :: "pyval \<Rightarrow> real \<Rightarrow> error + pyval" where
  "set_SOG obj x =
     (case obj of Message m \<Rightarrow> Inr (Message (m\<lparr>SOG := x\<rparr>)) | TrackList t \<Rightarrow> Inl AttributeError)"

definition set_lon :: "pyval \<Rightarrow> real \<Rightarrow> error + pyval" where
  "set_lon obj x =
     (case obj of Message m \<Rightarrow> Inr (Message (m\<lparr>lon := x\<rparr>)) | TrackList t \<Rightarrow> Inl AttributeError)"

definition set_lat :: "pyval \<Rightarrow> real \<Rightarrow> error + pyval" where
  "set_lat obj x =
     (case obj of Message m \<Rightarrow> Inr (Message (m\<lparr>lat := x\<rparr>)) | TrackList t \<Rightarrow> Inl AttributeError)"

text \<open>
  \<open>_time_mean_speed\<close>, in degrees per hour. (For two reports with the same timestamp numpy
  divides by zero and yields an infinity or a NaN, which the reals lack; no statement
  below evaluates that case.)
\<close>

definition time_mean_speed :: "pyval \<Rightarrow> pyval \<Rightarrow> error + real" where
  "time_mean_speed msg_t0 msg_t1 =
     and_then (attr lat msg_t1) (\<lambda>lat1.
     and_then (attr lat msg_t0) (\<lambda>lat0.
     and_then (attr lon msg_t1) (\<lambda>lon1.
     and_then (attr lon msg_t0) (\<lambda>lon0.
     and_then (attr timestamp msg_t1) (\<lambda>ts1.
     and_then (attr timestamp msg_t0) (\<lambda>ts0.
       let lat_offset = (lat1 - lat0)\<^sup>2;
           lon_offset = (lon1 - lon0)\<^sup>2;
           time_offset = ts1 - ts0
       in Inr (sqrt (lat_offset + lon_offset) / (time_offset / 60 / 60))))))))"

text \<open>
  The body of the loop of \<open>_speed_correction\<close> on the pair \<open>(msg_t0, msg_t1)\<close>, followed by
  the later pairs; \<open>n\<close> is the counter \<open>_n_speed_correction\<close>. The second value of a pair is
  the first value of the next pair, with the speed it has by then.
\<close>

fun speed_correction_pairs :: "pyval \<Rightarrow> pyval list \<Rightarrow> nat \<Rightarrow> error + pyval list \<times> nat" where
  "speed_correction_pairs msg_t0 [] n = Inr ([msg_t0], n)"
| "speed_correction_pairs msg_t0 (msg_t1 # rest) n =
     and_then (time_mean_speed msg_t0 msg_t1) (\<lambda>tms.
     and_then (attr SOG msg_t0) (\<lambda>sog0.
     and_then (attr SOG msg_t1) (\<lambda>sog1.
       let lower_bound = sog0 - (sog1 - sog0);
           upper_bound = sog1 + (sog1 - sog0)
       in and_then (if \<not> (lower_bound < tms \<and> tms < upper_bound)
                    then and_then (set_SOG msg_t1 tms) (\<lambda>obj. Inr (obj, n + 1))
                    else Inr (msg_t1, n)) (\<lambda>(obj, n1).
          and_then (speed_correction_pairs obj rest n1) (\<lambda>(out, n2).
            Inr (msg_t0 # out, n2))))))"

text \<open>\<open>pairwise\<close> yields nothing for a list with fewer than two elements.\<close>

definition speed_correction_target :: "pyval list \<Rightarrow> nat \<Rightarrow> error + pyval list \<times> nat" where
  "speed_correction_target objs n =
     (case objs of [] \<Rightarrow> Inr ([], n) | first # rest \<Rightarrow> speed_correction_pairs first rest n)"

text \<open>
  \<open>_speed_correction\<close>: for every target, the pairs of \<open>target.tracks\<close>. The result holds,
  for every vessel id, the elements of \<open>target.tracks\<close> after the pass, and the counter.
\<close>

fun speed_correction :: "Targets \<Rightarrow> nat \<Rightarrow> error + (int \<times> pyval list) list \<times> nat" where
  "speed_correction [] n = Inr ([], n)"
| "speed_correction ((k, target) # rest) n =
     and_then (speed_correction_target (map TrackList (tracks target)) n) (\<lambda>(objs, n1).
     and_then (speed_correction rest n1) (\<lambda>(out, n2). Inr ((k, objs) # out, n2)))"

definition deg2rad :: "real \<Rightarrow> real" where
  "deg2rad x = x * pi / 180"

definition break_down_velocity :: "real \<Rightarrow> real \<Rightarrow> real \<times> real" where
  "break_down_velocity speed course =
     (speed * cos (deg2rad course), speed * sin (deg2rad course))"

fun position_correction_pairs :: "pyval \<Rightarrow> pyval list \<Rightarrow> nat \<Rightarrow> error + pyval list \<times> nat" where
  "position_correction_pairs msg_t0 [] n = Inr ([msg_t0], n)"
| "position_correction_pairs msg_t0 (msg_t1 # rest) n =
     and_then (attr timestamp msg_t1) (\<lambda>ts1.
     and_then (attr timestamp msg_t0) (\<lambda>ts0.
     and_then (attr SOG msg_t0) (\<lambda>sog0.
     and_then (attr COG msg_t0) (\<lambda>cog0.
     and_then (attr lon msg_t0) (\<lambda>lon0.
     and_then (attr lat msg_t0) (\<lambda>lat0.
     and_then (attr lon msg_t1) (\<lambda>lon1.
     and_then (attr lat msg_t1) (\<lambda>lat1.
     and_then (attr SOG msg_t1) (\<lambda>sog1.
       let dt = ts1 - ts0;
           (sog_lon, sog_lat) = break_down_velocity sog0 cog0;
           lont1 = lon0 + sog_lon * dt;
           latt1 = lat0 + sog_lat * dt;
           est_pos = sqrt ((lont1 - lon1)\<^sup>2 + (latt1 - lat1)\<^sup>2)
       in and_then (if est_pos \<le> 0.5 * (sog1 - sog0) * dt
                    then and_then (set_lon msg_t1 lont1) (\<lambda>obj.
                         and_then (set_lat obj latt1) (\<lambda>obj1. Inr (obj1, n + 1)))
                    else Inr (msg_t1, n)) (\<lambda>(obj, n1).
          and_then (position_correction_pairs obj rest n1) (\<lambda>(out, n2).
            Inr (msg_t0 # out, n2))))))))))))"

definition position_correction_target :: "pyval list \<Rightarrow> nat \<Rightarrow> error + pyval list \<times> nat" where
  "position_correction_target objs n =
     (case objs of [] \<Rightarrow> Inr ([], n) | first # rest \<Rightarrow> position_correction_pairs first rest n)"

fun position_correction :: "Targets \<Rightarrow> nat \<Rightarrow> error + (int \<times> pyval list) list \<times> nat" where
  "position_correction [] n = Inr ([], n)"
| "position_correction ((k, target) # rest) n =
     and_then (position_correction_target (map TrackList (tracks target)) n) (\<lambda>(objs, n1).
     and_then (position_correction rest n1) (\<lambda>(out, n2). Inr ((k, objs) # out, n2)))"

subsection \<open>Neighbour search\<close>

text \<open>
  A float that may be \<open>np.inf\<close>: the search radius, the distance bound and the distances that
  the query reports.
\<close>

datatype np_float = Finite real | Infinity

text \<open>
  The attributes of the agent that \<open>_get_neighbors\<close> reads: the dynamic messages, the time
  window in minutes and the maximum number of results.
\<close>

record AgentState =
  dynamic_msgs :: DataFrame
  time_delta :: int
  max_tgt_ships :: int

text \<open>
  \<open>_time_filter\<close>: the rows strictly less than \<open>delta\<close> minutes away from the date, which is
  \<open>int(date)\<close> seconds. The time zone is read from the first row, so an empty dataframe
  raises IndexError. (Timestamps are seconds since the epoch of time-zone aware stamps.)
\<close>

definition time_filter :: "DataFrame \<Rightarrow> real \<Rightarrow> int \<Rightarrow> error + DataFrame" where
  "time_filter df date delta =
     (if df = [] then Inl IndexError
      else let date1 = of_int (py_int date);
               dt = of_int delta * 60
           in Inr (filter (\<lambda>row. date1 - dt < r_timestamp row \<and> r_timestamp row < date1 + dt) df))"

text \<open>
  \<open>_build_kd_tree\<close> stacks the columns \<open>lat\<close> and \<open>lon\<close>: the tree is over the points of the
  rows, in the order of the rows. \<open>tpos.position.as_list\<close> is the point of the query.
\<close>

definition build_kd_tree :: "DataFrame \<Rightarrow> (real \<times> real) list" where
  "build_kd_tree frame = map (\<lambda>row. (r_lat row, r_lon row)) frame"

definition as_list :: "TimePosition \<Rightarrow> real \<times> real" where
  "as_list tpos = (tp_lat tpos, tp_lon tpos)"

text \<open>
  Modelled from the spec: \<open>cKDTree.query(x, k, distance_upper_bound)\<close> of scipy, which is not
  part of the repository. The spec (4.1) says: query the \<open>k\<close> nearest neighbours to the
  query point; a result beyond the radius or beyond the available points is reported with
  an infinite distance. The documentation of scipy adds: the distance is Euclidean; hits
  are sorted by distance, nearest first; missing neighbours are indicated with infinite
  distances and with the index \<open>n\<close>, the number of points; the two results are arrays of
  length \<open>k\<close>, and when \<open>k\<close> is 1 the last dimension is squeezed, so the two results are
  then a single float and a single index. Neither text says whether a point exactly at the
  bound is within it: the parameter \<open>at_bound\<close> decides that. Points at equal distance
  are kept here in the order of their indices. The documentation counts the neighbours
  from 1; what the query does for \<open>k\<close> below 1 is not used by any statement below.
\<close>

definition euclid :: "real \<times> real \<Rightarrow> real \<times> real \<Rightarrow> real" where
  "euclid p x = sqrt ((fst p - fst x)\<^sup>2 + (snd p - snd x)\<^sup>2)"

definition within_bound :: "bool \<Rightarrow> real \<Rightarrow> np_float \<Rightarrow> bool" where
  "within_bound at_bound d bound =
     (case bound of Infinity \<Rightarrow> True | Finite b \<Rightarrow> d < b \<or> (at_bound \<and> d = b))"

definition distances :: "(real \<times> real) list \<Rightarrow> real \<times> real \<Rightarrow> (real \<times> nat) list" where
  "distances pts x = map (\<lambda>i. (euclid (pts ! i) x, i)) [0..<length pts]"

definition nearest ::
  "bool \<Rightarrow> (real \<times> real) list \<Rightarrow> real \<times> real \<Rightarrow> nat \<Rightarrow> np_float \<Rightarrow> (real \<times> nat) list" where
  "nearest at_bound pts x k bound =
     take k (sort_key fst
       (filter (\<lambda>hit. within_bound at_bound (fst hit) bound) (distances pts x)))"

datatype query_result = Squeezed np_float nat | Arrays "np_float list" "nat list"

definition query ::
  "bool \<Rightarrow> (real \<times> real) list \<Rightarrow> real \<times> real \<Rightarrow> int \<Rightarrow> np_float \<Rightarrow> query_result" where
  "query at_bound pts x k distance_upper_bound =
     (let hits = nearest at_bound pts x (nat k) distance_upper_bound;
          missing = nat k - length hits;
          d = map (\<lambda>hit. Finite (fst hit)) hits @ replicate missing Infinity;
          i = map snd hits @ replicate missing (length pts)
      in if k = 1 then Squeezed (hd d) (hd i) else Arrays d i)"

text \<open>
  \<open>[indices[i] for i, j in enumerate(d) if j != float("inf")]\<close>, from position \<open>i\<close> on.
\<close>

fun finite_hits :: "nat \<Rightarrow> np_float list \<Rightarrow> nat list \<Rightarrow> error + nat list" where
  "finite_hits i [] indices = Inr []"
| "finite_hits i (j # d) indices =
     (if j \<noteq> Infinity then
        (if i < length indices
         then and_then (finite_hits (i + 1) d indices) (\<lambda>res. Inr (indices ! i # res))
         else Inl IndexError)
      else finite_hits (i + 1) d indices)"

text \<open>\<open>filtered.iloc[res]\<close>: the rows at the positions, IndexError for a position out of range.\<close>

definition iloc :: "'a list \<Rightarrow> nat list \<Rightarrow> error + 'a list" where
  "iloc df res =
     (if list_all (\<lambda>i. i < length df) res then Inr (map (\<lambda>i. df ! i) res) else Inl IndexError)"

text \<open>
  The conversion of the radius from nautical miles to degrees, which leaves \<open>np.inf\<close> as it
  is.
\<close>

definition degrees :: "np_float \<Rightarrow> np_float" where
  "degrees search_radius =
     (case search_radius of Infinity \<Rightarrow> Infinity | Finite r \<Rightarrow> Finite (r / 60))"

text \<open>
  \<open>_get_neighbors\<close> after the time filter, on the time-windowed reports: \<open>enumerate(d)\<close>
  raises TypeError when \<open>d\<close> is a float and not an array.
\<close>

definition nearest_reports ::
  "bool \<Rightarrow> int \<Rightarrow> DataFrame \<Rightarrow> TimePosition \<Rightarrow> np_float \<Rightarrow> error + DataFrame" where
  "nearest_reports at_bound k filtered tpos search_radius =
     (if filtered = [] then Inr filtered
      else let tree = build_kd_tree filtered;
               sr = degrees search_radius
           in case query at_bound tree (as_list tpos) k sr of
                Squeezed d i \<Rightarrow> Inl TypeError
              | Arrays d indices \<Rightarrow>
                  and_then (finite_hits 0 d indices) (\<lambda>res. iloc filtered res))"

definition get_neighbors ::
  "bool \<Rightarrow> AgentState \<Rightarrow> TimePosition \<Rightarrow> np_float \<Rightarrow> error + DataFrame" where
  "get_neighbors at_bound self tpos search_radius =
     and_then (time_filter (dynamic_msgs self) (tp_timestamp tpos) (time_delta self))
       (\<lambda>filtered. nearest_reports at_bound (max_tgt_ships self) filtered tpos search_radius)"

subsection \<open>Example inputs\<close>

text \<open>
  An agent without static messages whose segmentation test splits at a time gap of more
  than 1000 seconds and whose sort is insertion sort by timestamp; rows of the vessel 111.
\<close>

definition gap_split :: "AISMessage \<Rightarrow> AISMessage \<Rightarrow> bool" where
  "gap_split previous msg = (timestamp msg - timestamp previous > 1000)"

definition example_agent :: SearchAgent where
  "example_agent =
     \<lparr>static_msgs = [], is_split_point = gap_split, sort_values = sort_key r_timestamp\<rparr>"

definition example_row :: "real \<Rightarrow> Row" where
  "example_row t =
     \<lparr>r_timestamp = t, r_mmsi = 111, r_lat = 0, r_lon = 0, r_speed = 0, r_course = 0\<rparr>"

definition example_tpos :: "real \<Rightarrow> TimePosition" where
  "example_tpos t = \<lparr>tp_timestamp = t, tp_lat = 0, tp_lon = 0\<rparr>"

definition example_vessel :: "real option \<Rightarrow> track list \<Rightarrow> TargetShip" where
  "example_vessel t trs =
     \<lparr>ts = t, mmsi = 111, ship_type = [], ship_length = Array [], tracks = trs\<rparr>"

text \<open>
  Two reports an hour apart at the same place, both reporting 10 knots; and two reports
  ten seconds apart, one degree of longitude apart, the first at rest.
\<close>

definition still_report :: "real \<Rightarrow> AISMessage" where
  "still_report t = \<lparr>sender = 111, timestamp = t, lat = 0, lon = 0, COG = 0, SOG = 10\<rparr>"

definition drift_first :: AISMessage where
  "drift_first = \<lparr>sender = 111, timestamp = 0, lat = 0, lon = 0, COG = 0, SOG = 0\<rparr>"

definition drift_second :: AISMessage where
  "drift_second = \<lparr>sender = 111, timestamp = 10, lat = 0, lon = 1, COG = 0, SOG = 2\<rparr>"

text \<open>
  An agent whose only report is at the position and time of the query \<open>example_tpos 0\<close>,
  with the maximum number of results \<open>k\<close>.
\<close>

definition lone_report_agent :: "int \<Rightarrow> AgentState" where
  "lone_report_agent k = \<lparr>dynamic_msgs = [example_row 0], time_delta = 30, max_tgt_ships = k\<rparr>"

section \<open>Properties of the rule engine\<close>

lemma cooked_all:
  "(\<And>f. f \<in> set fs \<Longrightarrow> call f track = Inr (res f)) \<Longrightarrow>
   cooked fs track = Inr (\<forall>f\<in>set fs. res f)"
  by (induction fs) auto

lemma check_signature_well_formed:
  "(check_signature func = Inr ()) = well_formed func"
proof (cases func)
  case NotCallable
  then show ?thesis by (simp add: check_signature_def well_formed_def)
next
  case (Callable reported run)
  show ?thesis
  proof (cases reported)
    case None
    with Callable show ?thesis by (simp add: check_signature_def well_formed_def)
  next
    case (Some sg)
    show ?thesis
    proof (cases "parameters sg")
      case Nil
      with Callable Some show ?thesis by (simp add: check_signature_def well_formed_def)
    next
      case (Cons p ps)
      with Callable Some show ?thesis
        by (cases ps) (auto simp: check_signature_def well_formed_def)
    qed
  qed
qed

lemma check_each_Inr:
  "(check_each fs = Inr ()) = (\<forall>f\<in>set fs. well_formed f)"
proof (induction fs)
  case Nil
  show ?case by simp
next
  case (Cons f fs)
  show ?case
  proof (cases "check_signature f")
    case (Inl e)
    with check_signature_well_formed [of f] show ?thesis by auto
  next
    case (Inr u)
    with check_signature_well_formed [of f] Cons.IH show ?thesis by auto
  qed
qed

lemma check_signature_raises:
  "check_signature NotCallable = Inl TypeError"
  "check_signature (Callable None run) = Inl ValueError"
  by (simp_all add: check_signature_def)

text \<open>
  Construction succeeds exactly when every argument passes the checks, and then keeps the
  arguments as they are.
\<close>

lemma Recipe_init_accepts:
  "(Recipe_init fs = Inr r) = ((\<forall>f\<in>set fs. well_formed f) \<and> r = \<lparr>funcs = fs\<rparr>)"
proof (cases "check_each fs")
  case (Inl e)
  with check_each_Inr [of fs] show ?thesis by (auto simp: Recipe_init_def)
next
  case (Inr u)
  with check_each_Inr [of fs] show ?thesis by (auto simp: Recipe_init_def)
qed

text \<open>
  C4. The cooked recipe returns the conjunction of the results of its rules on the track
  (whenever every rule returns a result). With a rule \<open>R1\<close> that always returns true and a
  rule \<open>R2\<close> that always returns false, the recipe of \<open>R1, R2\<close> evaluates to false on every
  track (it rejects none) and the recipe of \<open>R1, R1\<close> to true (it rejects every track).
\<close>

theorem recipe_cook_and:
  "((\<forall>f\<in>set (funcs r). call f track = Inr (res f)) \<longrightarrow>
      cook r track = Inr (\<forall>f\<in>set (funcs r). res f))
   \<and> ((\<forall>t. call R1 t = Inr True) \<and> (\<forall>t. call R2 t = Inr False) \<longrightarrow>
      cook \<lparr>funcs = [R1, R2]\<rparr> track = Inr False
      \<and> cook \<lparr>funcs = [R1, R1]\<rparr> track = Inr True)"
proof (intro conjI impI)
  assume "\<forall>f\<in>set (funcs r). call f track = Inr (res f)"
  then show "cook r track = Inr (\<forall>f\<in>set (funcs r). res f)"
    unfolding cook_def by (intro cooked_all) simp
next
  assume "(\<forall>t. call R1 t = Inr True) \<and> (\<forall>t. call R2 t = Inr False)"
  then show "cook \<lparr>funcs = [R1, R2]\<rparr> track = Inr False"
    by (simp add: cook_def)
next
  assume "(\<forall>t. call R1 t = Inr True) \<and> (\<forall>t. call R2 t = Inr False)"
  then show "cook \<lparr>funcs = [R1, R1]\<rparr> track = Inr True"
    by (simp add: cook_def)
qed

theorem recipe_cook_and_witness:
  "call always_true [] = Inr True \<and> call always_false [] = Inr False
   \<and> (\<forall>t. call always_true t = Inr True) \<and> (\<forall>t. call always_false t = Inr False)
   \<and> cook \<lparr>funcs = [always_true, always_false]\<rparr> [] = Inr False
   \<and> cook \<lparr>funcs = [always_true, always_true]\<rparr> [] = Inr True"
  using recipe_cook_and [of "\<lparr>funcs = [always_true, always_false]\<rparr>" "[]"
      "\<lambda>f. call f [] = Inr True" always_true always_false]
  by (simp add: always_true_def always_false_def def_function_def rule_signature_def
      binds_one_positional_def is_positional_def)

text \<open>
  C8 fails on the code. \<open>_check_signature\<close> looks at the number of parameters, at the
  annotation of the parameter named \<open>track\<close> and at the return annotation of the reported
  signature, and at nothing else. A rule whose only parameter is keyword-only, and a
  wrapped function that reports the signature of a plain rule, both pass every check, so
  the recipe is constructed; the call \<open>func(track)\<close> of the cooked recipe then raises
  TypeError, at evaluation time.
\<close>

theorem recipe_accepts_failing_signature:
  "Recipe_init [keyword_only_rule] = Inr \<lparr>funcs = [keyword_only_rule]\<rparr>
   \<and> cook \<lparr>funcs = [keyword_only_rule]\<rparr> [] = Inl TypeError
   \<and> Recipe_init [wrapped_rule] = Inr \<lparr>funcs = [wrapped_rule]\<rparr>
   \<and> cook \<lparr>funcs = [wrapped_rule]\<rparr> [] = Inl TypeError"
  by (simp add: Recipe_init_def check_signature_def cook_def keyword_only_rule_def
      wrapped_rule_def def_function_def rule_signature_def
      keyword_only_signature_def binds_one_positional_def is_positional_def)

lemma ptp_nonempty:
  "xs \<noteq> [] \<Longrightarrow> ptp (map f xs) = Inr (Max (f ` set xs) - Min (f ` set xs))"
  by (simp add: ptp_def)

lemma spread_le:
  fixes f :: "'a \<Rightarrow> real"
  assumes "xs \<noteq> []" and "\<forall>a\<in>set xs. \<forall>b\<in>set xs. f a - f b \<le> c"
  shows "Max (f ` set xs) - Min (f ` set xs) \<le> c"
proof -
  have fin: "finite (f ` set xs)" and ne: "f ` set xs \<noteq> {}"
    using assms(1) by auto
  obtain a where a: "a \<in> set xs" "Max (f ` set xs) = f a"
    using Max_in [OF fin ne] by auto
  obtain b where b: "b \<in> set xs" "Min (f ` set xs) = f b"
    using Min_in [OF fin ne] by auto
  show ?thesis using assms(2) a b by auto
qed

text \<open>
  C10. On a track with at least one report, \<open>too_small_span\<close> returns true exactly when the
  latitude span and the longitude span (maximum minus minimum) are both strictly greater
  than the threshold; so it returns false for every track whose latitudes, or whose
  longitudes, are pairwise no more than the threshold apart. (On the empty track
  \<open>np.ptp\<close> raises ValueError and nothing is returned.)
\<close>

theorem too_small_span_flags_large:
  "too_small_span [] span' = Inl ValueError
   \<and> (track \<noteq> [] \<longrightarrow>
        too_small_span track span' =
          Inr (Max (lat ` set track) - Min (lat ` set track) > span'
               \<and> Max (lon ` set track) - Min (lon ` set track) > span')
        \<and> ((\<forall>a\<in>set track. \<forall>b\<in>set track. lat a - lat b \<le> span')
            \<or> (\<forall>a\<in>set track. \<forall>b\<in>set track. lon a - lon b \<le> span')
            \<longrightarrow> too_small_span track span' = Inr False))"
proof (intro conjI impI)
  show "too_small_span [] span' = Inl ValueError"
    by (simp add: too_small_span_def ptp_def)
next
  assume ne: "track \<noteq> []"
  show eq: "too_small_span track span' =
          Inr (Max (lat ` set track) - Min (lat ` set track) > span'
               \<and> Max (lon ` set track) - Min (lon ` set track) > span')"
    by (simp add: too_small_span_def ptp_nonempty [OF ne])
  assume small: "(\<forall>a\<in>set track. \<forall>b\<in>set track. lat a - lat b \<le> span')
            \<or> (\<forall>a\<in>set track. \<forall>b\<in>set track. lon a - lon b \<le> span')"
  then have "Max (lat ` set track) - Min (lat ` set track) \<le> span'
     \<or> Max (lon ` set track) - Min (lon ` set track) \<le> span'"
    using spread_le [OF ne, of lat span'] spread_le [OF ne, of lon span'] by blast
  then show "too_small_span track span' = Inr False"
    unfolding eq by auto
qed

theorem too_small_span_flags_large_witness:
  "[example_msg 0 0 0, example_msg 10 2 3] \<noteq> []
   \<and> too_small_span [example_msg 0 0 0, example_msg 10 2 3] 1 = Inr True
   \<and> lat (example_msg 10 2 3) - lat (example_msg 0 0 0) \<le> 5
   \<and> lat (example_msg 0 0 0) - lat (example_msg 10 2 3) \<le> 5
   \<and> too_small_span [example_msg 0 0 0, example_msg 10 2 3] 5 = Inr False"
  using too_small_span_flags_large [of 1 "[example_msg 0 0 0, example_msg 10 2 3]"]
    too_small_span_flags_large [of 5 "[example_msg 0 0 0, example_msg 10 2 3]"]
  by (simp add: example_msg_def)
section \<open>Properties of the Inspector\<close>

lemma map_of_copy_track:
  "map_of (copy_track v d t) = appm (map_of d) v [t]"
  by (auto simp: copy_track_def appm_def AList.map_of_map_entry AList.update_conv' fun_eq_iff
      split: option.splits)

lemma appm_appm: "appm (appm m v xs) v ys = appm m v (xs @ ys)"
  by (auto simp: appm_def fun_eq_iff split: option.splits)

lemma inspect_tracks_spec:
  "\<forall>t\<in>set trs. \<exists>b. recipe self t = Inr b \<Longrightarrow>
   \<exists>self1. inspect_tracks self v trs n = Inr (self1, n + length trs)
     \<and> recipe self1 = recipe self \<and> data self1 = data self
     \<and> map_of (accepted self1) = appm (map_of (accepted self)) v (filter (\<lambda>t. recipe self t = Inr False) trs)
     \<and> map_of (rejected self1) = appm (map_of (rejected self)) v (filter (\<lambda>t. recipe self t = Inr True) trs)"
proof (induction trs arbitrary: self n)
  case Nil
  show ?case by (simp add: appm_def)
next
  case (Cons t trs)
  from Cons.prems obtain b where b: "recipe self t = Inr b" by auto
  define s1 where "s1 = (if b then reject_track self v t else accept_track self v t)"
  have r1: "recipe s1 = recipe self" and d1: "data s1 = data self"
    by (simp_all add: s1_def reject_track_def accept_track_def)
  have "\<forall>t'\<in>set trs. \<exists>b. recipe s1 t' = Inr b"
    using Cons.prems r1 by simp
  from Cons.IH [where self = s1 and n = "n + 1", OF this] obtain self1 where
    run: "inspect_tracks s1 v trs (n + 1) = Inr (self1, n + 1 + length trs)"
    and rc: "recipe self1 = recipe s1" and dt: "data self1 = data s1"
    and acc: "map_of (accepted self1) = appm (map_of (accepted s1)) v (filter (\<lambda>t. recipe s1 t = Inr False) trs)"
    and rej: "map_of (rejected self1) = appm (map_of (rejected s1)) v (filter (\<lambda>t. recipe s1 t = Inr True) trs)"
    by blast
  have step: "inspect_tracks self v (t # trs) n = inspect_tracks s1 v trs (n + 1)"
    using b by (simp add: s1_def)
  have a1: "map_of (accepted s1) = appm (map_of (accepted self)) v (filter (\<lambda>t. recipe self t = Inr False) [t])"
    using b by (cases b) (simp_all add: s1_def reject_track_def accept_track_def map_of_copy_track appm_def)
  have j1: "map_of (rejected s1) = appm (map_of (rejected self)) v (filter (\<lambda>t. recipe self t = Inr True) [t])"
    using b by (cases b) (simp_all add: s1_def reject_track_def accept_track_def map_of_copy_track appm_def)
  have "map_of (accepted self1) = appm (map_of (accepted self)) v (filter (\<lambda>t. recipe self t = Inr False) (t # trs))"
    unfolding acc a1 r1 appm_appm by simp
  moreover have "map_of (rejected self1) = appm (map_of (rejected self)) v (filter (\<lambda>t. recipe self t = Inr True) (t # trs))"
    unfolding rej j1 r1 appm_appm by simp
  ultimately show ?case
    using run rc dt r1 d1 step by simp
qed

lemma route_Nil: "route P m [] = m"
  by (simp add: route_def)

lemma route_Cons: "route P m (kv # rest) = route P (appm m (snd kv) (filter P (tracks (snd kv)))) rest"
  by (simp add: route_def)

lemma appm_other: "k \<noteq> mmsi v \<Longrightarrow> appm m v trs k = m k"
  by (simp add: appm_def)

lemma route_other:
  "k \<notin> mmsi ` snd ` set targets \<Longrightarrow> route P m targets k = m k"
  by (induction targets arbitrary: m) (auto simp: route_Nil route_Cons appm_other)

lemma route_member:
  "distinct (map (\<lambda>kv. mmsi (snd kv)) targets) \<Longrightarrow> v \<in> snd ` set targets \<Longrightarrow> m (mmsi v) = None \<Longrightarrow>
   route P m targets (mmsi v) =
     (if filter P (tracks v) = [] then None else Some (v\<lparr>tracks := filter P (tracks v)\<rparr>))"
proof (induction targets arbitrary: m)
  case Nil
  then show ?case by simp
next
  case (Cons kv rest)
  show ?case
  proof (cases "v = snd kv")
    case True
    have "mmsi v \<notin> mmsi ` snd ` set rest"
      using Cons.prems(1) True by (auto simp: image_iff)
    then have "route P m (kv # rest) (mmsi v) = appm m v (filter P (tracks v)) (mmsi v)"
      using True by (simp add: route_Cons route_other)
    then show ?thesis using Cons.prems(3) by (simp add: appm_def)
  next
    case False
    with Cons.prems(2) have mem: "v \<in> snd ` set rest" by auto
    have ne: "mmsi v \<noteq> mmsi (snd kv)"
      using Cons.prems(1) mem by (auto simp: image_iff)
    have d: "distinct (map (\<lambda>kv. mmsi (snd kv)) rest)"
      using Cons.prems(1) by simp
    have m0: "appm m (snd kv) (filter P (tracks (snd kv))) (mmsi v) = None"
      using ne Cons.prems(3) by (simp add: appm_other)
    show ?thesis
      using Cons.IH [of "appm m (snd kv) (filter P (tracks (snd kv)))", OF d mem m0]
      by (simp add: route_Cons)
  qed
qed

lemma inspect_ships_spec:
  "\<forall>v\<in>snd ` set targets. \<forall>t\<in>set (tracks v). \<exists>b. recipe self t = Inr b \<Longrightarrow>
   \<exists>self1. inspect_ships self targets n = Inr (self1, n + sum_list (map (\<lambda>kv. length (tracks (snd kv))) targets))
     \<and> recipe self1 = recipe self \<and> data self1 = data self
     \<and> map_of (accepted self1) = route (\<lambda>t. recipe self t = Inr False) (map_of (accepted self)) targets
     \<and> map_of (rejected self1) = route (\<lambda>t. recipe self t = Inr True) (map_of (rejected self)) targets"
proof (induction targets arbitrary: self n)
  case Nil
  show ?case by (simp add: route_Nil)
next
  case (Cons kv rest)
  obtain k v where kv: "kv = (k, v)" by (cases kv)
  have "\<forall>t\<in>set (tracks v). \<exists>b. recipe self t = Inr b"
    using Cons.prems kv by simp
  from inspect_tracks_spec [where self = self and trs = "tracks v" and v = v and n = n, OF this]
  obtain s1 where
    run1: "inspect_tracks self v (tracks v) n = Inr (s1, n + length (tracks v))"
    and r1: "recipe s1 = recipe self" and d1: "data s1 = data self"
    and a1: "map_of (accepted s1) = appm (map_of (accepted self)) v (filter (\<lambda>t. recipe self t = Inr False) (tracks v))"
    and j1: "map_of (rejected s1) = appm (map_of (rejected self)) v (filter (\<lambda>t. recipe self t = Inr True) (tracks v))"
    by blast
  have "\<forall>w\<in>snd ` set rest. \<forall>t\<in>set (tracks w). \<exists>b. recipe s1 t = Inr b"
    using Cons.prems r1 by auto
  from Cons.IH [where self = s1 and n = "n + length (tracks v)", OF this]
  obtain self1 where
    run: "inspect_ships s1 rest (n + length (tracks v)) =
            Inr (self1, n + length (tracks v) + sum_list (map (\<lambda>kv. length (tracks (snd kv))) rest))"
    and rc: "recipe self1 = recipe s1" and dt: "data self1 = data s1"
    and acc: "map_of (accepted self1) = route (\<lambda>t. recipe s1 t = Inr False) (map_of (accepted s1)) rest"
    and rej: "map_of (rejected self1) = route (\<lambda>t. recipe s1 t = Inr True) (map_of (rejected s1)) rest"
    by blast
  have "inspect_ships self (kv # rest) n =
          Inr (self1, n + sum_list (map (\<lambda>kv. length (tracks (snd kv))) (kv # rest)))"
    using run1 run kv by (simp add: add.assoc)
  moreover have "map_of (accepted self1) = route (\<lambda>t. recipe self t = Inr False) (map_of (accepted self)) (kv # rest)"
    unfolding acc a1 r1 route_Cons kv by simp
  moreover have "map_of (rejected self1) = route (\<lambda>t. recipe self t = Inr True) (map_of (rejected self)) (kv # rest)"
    unfolding rej j1 r1 route_Cons kv by simp
  ultimately show ?case using rc r1 dt d1 by auto
qed

lemma inspect_ships_no_tracks:
  "(\<And>v. v \<in> snd ` set targets \<Longrightarrow> tracks v = []) \<Longrightarrow> inspect_ships self targets n = Inr (self, n)"
proof (induction targets)
  case Nil
  show ?case by simp
next
  case (Cons kv rest)
  obtain k v where kv: "kv = (k, v)" by (cases kv)
  have "tracks v = []" using Cons.prems [of v] kv by simp
  moreover have "inspect_ships self rest n = Inr (self, n)"
    using Cons by auto
  ultimately show ?case using kv by simp
qed

text \<open>
  C7. A partition run of a fresh Inspector over vessels with pairwise distinct ids, with a
  recipe that evaluates on every track, returns the number of input tracks and two
  collections such that, for every input vessel, the accepted entry holds exactly the
  tracks on which the recipe is false and the rejected entry exactly the tracks on which
  it is true, each in the order of the input: every (vessel, track) pair is in exactly one
  of the two, none is lost or duplicated. An entry exists only when a track was routed to
  it (so a vessel with tracks of both kinds is a key of both collections), it is the
  source vessel with its tracks replaced, and no other key appears.
\<close>

theorem inspect_partition:
  assumes ids: "distinct (map (\<lambda>kv. mmsi (snd kv)) targets)"
    and total: "\<forall>v\<in>snd ` set targets. \<forall>t\<in>set (tracks v). \<exists>b. cook r t = Inr b"
  shows "\<exists>self1 a rj.
      inspect_impl (Inspector_init targets r) targets =
        Inr (self1, a, rj, sum_list (map (\<lambda>kv. length (tracks (snd kv))) targets))
      \<and> (\<forall>v\<in>snd ` set targets.
            map_of a (mmsi v) =
              (if filter (\<lambda>t. cook r t = Inr False) (tracks v) = [] then None
               else Some (v\<lparr>tracks := filter (\<lambda>t. cook r t = Inr False) (tracks v)\<rparr>))
          \<and> map_of rj (mmsi v) =
              (if filter (\<lambda>t. cook r t = Inr True) (tracks v) = [] then None
               else Some (v\<lparr>tracks := filter (\<lambda>t. cook r t = Inr True) (tracks v)\<rparr>)))
      \<and> (\<forall>k. k \<notin> mmsi ` snd ` set targets \<longrightarrow> map_of a k = None \<and> map_of rj k = None)"
proof -
  let ?self = "Inspector_init targets r"
  have rec: "recipe ?self = cook r" and e: "accepted ?self = []" "rejected ?self = []"
    by (simp_all add: Inspector_init_def)
  have "\<forall>v\<in>snd ` set targets. \<forall>t\<in>set (tracks v). \<exists>b. recipe ?self t = Inr b"
    using total rec by auto
  from inspect_ships_spec [where self = ?self and targets = targets and n = 0, OF this]
  obtain self1 where
    run: "inspect_ships ?self targets 0 = Inr (self1, sum_list (map (\<lambda>kv. length (tracks (snd kv))) targets))"
    and acc: "map_of (accepted self1) = route (\<lambda>t. cook r t = Inr False) Map.empty targets"
    and rej: "map_of (rejected self1) = route (\<lambda>t. cook r t = Inr True) Map.empty targets"
    by (auto simp: rec e)
  have "inspect_impl ?self targets =
      Inr (self1, accepted self1, rejected self1, sum_list (map (\<lambda>kv. length (tracks (snd kv))) targets))"
    using run by (simp add: inspect_impl_def)
  moreover have "\<forall>v\<in>snd ` set targets.
            map_of (accepted self1) (mmsi v) =
              (if filter (\<lambda>t. cook r t = Inr False) (tracks v) = [] then None
               else Some (v\<lparr>tracks := filter (\<lambda>t. cook r t = Inr False) (tracks v)\<rparr>))
          \<and> map_of (rejected self1) (mmsi v) =
              (if filter (\<lambda>t. cook r t = Inr True) (tracks v) = [] then None
               else Some (v\<lparr>tracks := filter (\<lambda>t. cook r t = Inr True) (tracks v)\<rparr>))"
    unfolding acc rej using route_member [OF ids] by simp
  moreover have "\<forall>k. k \<notin> mmsi ` snd ` set targets \<longrightarrow>
      map_of (accepted self1) k = None \<and> map_of (rejected self1) k = None"
    unfolding acc rej by (simp add: route_other)
  ultimately show ?thesis by blast
qed

theorem inspect_partition_witness:
  "distinct (map (\<lambda>kv. mmsi (snd kv)) [(111, example_ship)])
   \<and> cook \<lparr>funcs = [few_obs_rule]\<rparr> example_track2 = Inr True
   \<and> cook \<lparr>funcs = [few_obs_rule]\<rparr> example_track5 = Inr False
   \<and> (\<exists>self1. inspect_impl (Inspector_init [(111, example_ship)] \<lparr>funcs = [few_obs_rule]\<rparr>)
                   [(111, example_ship)] =
         Inr (self1, [(111, example_ship\<lparr>tracks := [example_track5]\<rparr>)],
                     [(111, example_ship\<lparr>tracks := [example_track2]\<rparr>)], 2))"
  using inspect_partition [of "[(111, example_ship)]" "\<lparr>funcs = [few_obs_rule]\<rparr>"]
  by (simp add: inspect_impl_def Inspector_init_def cook_def few_obs_rule_def rule_signature_def
      def_function_def binds_one_positional_def is_positional_def too_few_obs_def example_ship_def
      example_track2_def example_track5_def reject_track_def accept_track_def copy_track_def)

text \<open>
  C9. When no vessel of the input has a track (the collection is empty, or every list of
  tracks is), \<open>inspect\<close> with \<open>njobs = 1\<close> raises ZeroDivisionError in the rejection-rate
  summary and returns nothing.
\<close>

theorem inspect_zero_tracks:
  assumes "\<forall>v\<in>snd ` set (data self). tracks v = []"
  shows "inspect_njobs1 self = Inl ZeroDivisionError"
proof -
  have "inspect_ships self (data self) 0 = Inr (self, 0)"
    using assms by (intro inspect_ships_no_tracks) blast
  then show ?thesis
    by (simp add: inspect_njobs1_def inspect_impl_def print_rejection_rate_def)
qed

theorem inspect_zero_tracks_witness:
  "tracks idle_ship = []
   \<and> inspect_njobs1 (Inspector_init [(222, idle_ship)] \<lparr>funcs = [few_obs_rule]\<rparr>) = Inl ZeroDivisionError
   \<and> inspect_njobs1 (Inspector_init [] \<lparr>funcs = [few_obs_rule]\<rparr>) = Inl ZeroDivisionError"
  using inspect_zero_tracks [of "Inspector_init [(222, idle_ship)] \<lparr>funcs = [few_obs_rule]\<rparr>"]
    inspect_zero_tracks [of "Inspector_init [] \<lparr>funcs = [few_obs_rule]\<rparr>"]
  by (simp add: Inspector_init_def idle_ship_def)
section \<open>Properties of target-vessel construction and of the corrections\<close>

lemma and_then_Inr [simp]: "and_then (Inr x) f = f x"
  by (simp add: and_then_def)

lemma and_then_Inl [simp]: "and_then (Inl e) f = Inl e"
  by (simp add: and_then_def)

lemma open_segment_step: "open_tracks (segment_step self trs msg)"
  by (simp add: open_tracks_def segment_step_def Let_def)

lemma open_foldl_step:
  "open_tracks trs \<Longrightarrow> open_tracks (foldl (segment_step self) trs msgs)"
  by (induction msgs arbitrary: trs) (simp_all add: open_segment_step)

lemma open_segment: "msgs \<noteq> [] \<Longrightarrow> open_tracks (segment self msgs)"
proof (cases msgs)
  case Nil
  assume "msgs \<noteq> []"
  with Nil show ?thesis by simp
next
  case (Cons m ms)
  have "open_tracks [[m]]" by (simp add: open_tracks_def)
  then have "open_tracks (foldl (segment_step self) [[m]] ms)"
    by (rule open_foldl_step)
  with Cons show ?thesis by (simp add: segment_def)
qed

lemma segment_snoc:
  "msgs \<noteq> [] \<Longrightarrow> segment self (msgs @ [msg]) = segment_step self (segment self msgs) msg"
  by (cases msgs) (simp_all add: segment_def)

lemma segment_single: "segment self [msg] = [[msg]]"
  by (simp add: segment_def)

lemma split_then_append:
  "open_tracks trs \<Longrightarrow>
   and_then (split_tracks self trs msg) (\<lambda>trs1. and_then (append_to_last trs1 msg) f) =
     f (segment_step self trs msg)"
  by (simp add: open_tracks_def split_tracks_def py_last_def append_to_last_def
      segment_step_def Let_def)

lemma impl_loop_rest:
  "open_tracks trs \<Longrightarrow>
   impl_loop self False m trs False rows =
     Inr (foldl (segment_step self) trs (map (mp_message m) rows))"
proof (induction rows arbitrary: trs)
  case Nil
  show ?case by simp
next
  case (Cons row rows)
  have "impl_loop self False m trs False (row # rows) =
        impl_loop self False m (segment_step self trs (mp_message m row)) False rows"
    using split_then_append [OF Cons.prems] by (simp add: Let_def)
  also have "\<dots> = Inr (foldl (segment_step self) (segment_step self trs (mp_message m row))
                        (map (mp_message m) rows))"
    by (rule Cons.IH) (rule open_segment_step)
  finally show ?case by simp
qed

lemma impl_loop_segment:
  "rows \<noteq> [] \<Longrightarrow>
   impl_loop self False m [[]] True rows = Inr (segment self (map (mp_message m) rows))"
proof (cases rows)
  case Nil
  assume "rows \<noteq> []"
  with Nil show ?thesis by simp
next
  case (Cons row rest)
  have "impl_loop self False m [[]] True (row # rest) =
        impl_loop self False m [[mp_message m row]] False rest"
    by (simp add: append_to_last_def Let_def)
  also have "\<dots> = Inr (foldl (segment_step self) [[mp_message m row]] (map (mp_message m) rest))"
    by (rule impl_loop_rest) (simp add: open_tracks_def)
  finally show ?thesis using Cons by (simp add: segment_def)
qed

lemma filter_remove1_short:
  "\<not> P x \<Longrightarrow> filter P (remove1 x xs) = filter P xs"
  by (induction xs) auto

lemma remove_short_keeps_long:
  "filter (\<lambda>t. 2 \<le> length t) (remove_short i trs) = filter (\<lambda>t. 2 \<le> length t) trs"
proof (induction i trs rule: remove_short.induct)
  case (1 i trs)
  show ?case
  proof (cases "i < length trs")
    case False
    then show ?thesis by (simp add: remove_short.simps [of i trs])
  next
    case True
    show ?thesis
    proof (cases "length (trs ! i) < 2")
      case short: True
      have "filter (\<lambda>t. 2 \<le> length t) (remove_short i trs) =
            filter (\<lambda>t. 2 \<le> length t) (remove1 (trs ! i) trs)"
        using True short "1.IH"(1) by (simp add: remove_short.simps [of i trs])
      also have "\<dots> = filter (\<lambda>t. 2 \<le> length t) trs"
        using short by (intro filter_remove1_short) simp
      finally show ?thesis .
    next
      case long: False
      show ?thesis
        using True long "1.IH"(2) by (simp add: remove_short.simps [of i trs])
    qed
  qed
qed

lemma filter_key_empty: "k \<notin> f ` set xs \<Longrightarrow> filter (\<lambda>x. f x = k) xs = []"
  by (induction xs) auto

lemma filter_key_nonempty: "k \<in> f ` set xs \<Longrightarrow> filter (\<lambda>x. f x = k) xs \<noteq> []"
  by (induction xs) auto

lemma sp_loop_snoc:
  "sp_loop self tpos t (rows @ [row]) =
     and_then (sp_loop self tpos t rows) (\<lambda>t1. sp_step self tpos t1 row)"
proof (induction rows arbitrary: t)
  case Nil
  show ?case by (cases "sp_step self tpos t row") simp_all
next
  case (Cons r rows)
  show ?case by (cases "sp_step self tpos t r") (simp_all add: Cons.IH)
qed

lemma sp_step_spec:
  assumes "map_of t = sp_map self tpos rows"
  shows "\<exists>t1. sp_step self tpos t row = Inr t1 \<and> map_of t1 = sp_map self tpos (rows @ [row])"
proof (cases "r_mmsi row \<in> r_mmsi ` set rows")
  case False
  then have none: "map_of t (r_mmsi row) = None"
    using assms by (simp add: sp_map_def)
  have empty: "filter (\<lambda>r. r_mmsi r = r_mmsi row) rows = []"
    using False by (rule filter_key_empty)
  let ?v = "make_target_ship self (map_option tp_timestamp tpos) (r_mmsi row) [[sp_message row]]"
  have step: "sp_step self tpos t row = Inr (AList.update (r_mmsi row) ?v t)"
    using none by (simp add: sp_step_def Let_def)
  have "map_of (AList.update (r_mmsi row) ?v t) k = sp_map self tpos (rows @ [row]) k" for k
    using assms empty by (auto simp: AList.update_conv' sp_map_def segment_single)
  then have "map_of (AList.update (r_mmsi row) ?v t) = sp_map self tpos (rows @ [row])"
    by (rule ext)
  with step show ?thesis by blast
next
  case True
  let ?msgs = "map sp_message (filter (\<lambda>r. r_mmsi r = r_mmsi row) rows)"
  let ?v = "make_target_ship self (map_option tp_timestamp tpos) (r_mmsi row) (segment self ?msgs)"
  have some: "map_of t (r_mmsi row) = Some ?v"
    using True assms by (simp add: sp_map_def)
  have ne: "?msgs \<noteq> []"
    using filter_key_nonempty [OF True] by simp
  have op: "open_tracks (tracks ?v)"
    using open_segment [OF ne] by (simp add: make_target_ship_def)
  let ?w = "?v\<lparr>tracks := segment_step self (tracks ?v) (sp_message row)\<rparr>"
  have step: "sp_step self tpos t row = Inr (AList.update (r_mmsi row) ?w t)"
    using some split_then_append [OF op] by (simp add: sp_step_def Let_def)
  have w: "?w = make_target_ship self (map_option tp_timestamp tpos) (r_mmsi row)
                  (segment self (?msgs @ [sp_message row]))"
    using segment_snoc [OF ne] by (simp add: make_target_ship_def)
  have "map_of (AList.update (r_mmsi row) ?w t) k = sp_map self tpos (rows @ [row]) k" for k
    unfolding w using assms by (auto simp: AList.update_conv' sp_map_def)
  then have "map_of (AList.update (r_mmsi row) ?w t) = sp_map self tpos (rows @ [row])"
    by (rule ext)
  with step show ?thesis by blast
qed

lemma sp_loop_spec:
  "\<exists>t. sp_loop self tpos [] rows = Inr t \<and> map_of t = sp_map self tpos rows"
proof (induction rows rule: rev_induct)
  case Nil
  show ?case by (simp add: sp_map_def fun_eq_iff)
next
  case (snoc row rows)
  then obtain t where t: "sp_loop self tpos [] rows = Inr t" "map_of t = sp_map self tpos rows"
    by blast
  from sp_step_spec [OF t(2), of row] obtain t1 where
    "sp_step self tpos t row = Inr t1" "map_of t1 = sp_map self tpos (rows @ [row])" by blast
  with t(1) show ?case by (simp add: sp_loop_snoc)
qed

lemma map_of_remove_single_obs:
  "map_of (remove_single_obs t) k =
     map_option (\<lambda>v. v\<lparr>tracks := filter (\<lambda>track. 2 \<le> length track) (tracks v)\<rparr>) (map_of t k)"
  unfolding remove_single_obs_def by (induction t) auto

lemma filter_sorted_unique:
  fixes f :: "'a \<Rightarrow> 'k::linorder"
  assumes ys: "mset ys = mset xs" "sorted (map f ys)"
    and zs: "mset zs = mset (filter P xs)" "sorted (map f zs)"
    and dist: "distinct (map f (filter P xs))"
  shows "filter P ys = zs"
proof -
  have m: "mset (filter P ys) = mset zs"
    using ys(1) zs(1) by simp
  then have sets: "set (filter P ys) = set zs"
    by (rule mset_eq_setD)
  have "mset (map f zs) = mset (map f (filter P xs))"
    using zs(1) by simp
  then have dz: "distinct (map f zs)"
    using dist mset_eq_imp_distinct_iff by blast
  have "mset (map f (filter P ys)) = mset (map f zs)"
    using m by simp
  then have dy: "distinct (map f (filter P ys))"
    using dz mset_eq_imp_distinct_iff by blast
  have inj: "inj_on f (set (filter P ys) \<union> set zs)"
    using dz sets by (simp add: distinct_map)
  show ?thesis
    using inj sorted_filter [OF ys(2)] dy zs(2) dz sets
    by (rule map_sorted_distinct_set_unique)
qed

lemma py_int_whole: "x \<in> \<int> \<Longrightarrow> of_int (py_int x) = x"
  by (auto simp: py_int_def elim!: Ints_cases)

lemma mp_message_whole:
  "r_timestamp row \<in> \<int> \<Longrightarrow> mp_message (r_mmsi row) row = sp_message row"
  by (simp add: mp_message_def sp_message_def py_int_whole)

lemma map_message_whole:
  "\<forall>row\<in>set rows. r_mmsi row = m \<and> r_timestamp row \<in> \<int> \<Longrightarrow>
   map (mp_message m) rows = map sp_message rows"
  by (induction rows) (auto simp: mp_message_whole)

lemma set_pd_unique [simp]: "set (pd_unique xs) = set xs"
  by (simp add: pd_unique_def)

lemma pd_unique_single: "xs \<noteq> [] \<Longrightarrow> set xs = {m} \<Longrightarrow> pd_unique xs = [m]"
proof -
  assume "xs \<noteq> []" and s: "set xs = {m}"
  have d: "distinct (pd_unique xs)" by (simp add: pd_unique_def)
  have "length (pd_unique xs) = 1"
    using distinct_card [OF d] s by simp
  then obtain y where y: "pd_unique xs = [y]"
    by (cases "pd_unique xs") auto
  then have "set (pd_unique xs) = {y}" by simp
  then have "y = m" using s by simp
  with y show ?thesis by simp
qed

lemma impl_construct_frame:
  assumes srt: "\<forall>d. mset (sort_values self d) = mset d"
    and mem: "m \<in> r_mmsi ` set df"
  shows "impl_construct_target_vessel self (filter (\<lambda>row. r_mmsi row = m) df) False =
           Inr [(m, mp_vessel self df m)]"
proof -
  let ?frame = "filter (\<lambda>row. r_mmsi row = m) df"
  have ne: "?frame \<noteq> []" using mem by (rule filter_key_nonempty)
  then have "map r_mmsi ?frame \<noteq> []" by simp
  moreover have "set (map r_mmsi ?frame) = {m}"
    using ne by (auto simp: filter_empty_conv)
  ultimately have u: "pd_unique (map r_mmsi ?frame) = [m]"
    by (rule pd_unique_single)
  have "mset (sort_values self ?frame) = mset ?frame" using srt by blast
  then have "sort_values self ?frame \<noteq> []" using ne by auto
  then have "impl_loop self False m [[]] True (sort_values self ?frame) =
             Inr (segment self (map (mp_message m) (sort_values self ?frame)))"
    by (rule impl_loop_segment)
  then show ?thesis
    using u by (simp add: impl_construct_target_vessel_def mp_vessel_def)
qed

lemma starmap_frames:
  assumes srt: "\<forall>d. mset (sort_values self d) = mset d"
  shows "set ms \<subseteq> r_mmsi ` set df \<Longrightarrow>
         starmap_impl self False (map (\<lambda>m. filter (\<lambda>row. r_mmsi row = m) df) ms) =
           Inr (map (\<lambda>m. [(m, mp_vessel self df m)]) ms)"
proof (induction ms)
  case Nil
  show ?case by simp
next
  case (Cons m ms)
  then have "m \<in> r_mmsi ` set df" by simp
  from impl_construct_frame [OF srt this] Cons show ?case by simp
qed

lemma map_of_merge:
  "map_of (fold (\<lambda>res targets. dict_update targets res) (map (\<lambda>m. [(m, g m)]) ms) acc) k =
     (if k \<in> set ms then Some (g k) else map_of acc k)"
  by (induction ms arbitrary: acc) (auto simp: dict_update_def AList.update_conv')

lemma mp_construct_spec:
  assumes srt: "\<forall>d. mset (sort_values self d) = mset d"
    and njobs: "1 \<le> njobs"
  shows "\<exists>t. mp_construct_target_vessels self df njobs False = Inr t
           \<and> (\<forall>k. map_of t k = (if k \<in> r_mmsi ` set df then Some (mp_vessel self df k) else None))"
proof -
  let ?ms = "pd_unique (map r_mmsi df)"
  have "set ?ms \<subseteq> r_mmsi ` set df" by simp
  from starmap_frames [OF srt this]
  have "mp_construct_target_vessels self df njobs False =
          Inr (fold (\<lambda>res targets. dict_update targets res)
                 (map (\<lambda>m. [(m, mp_vessel self df m)]) ?ms) [])"
    using njobs by (simp add: mp_construct_target_vessels_def distribute_def)
  then show ?thesis by (simp add: map_of_merge)
qed

lemma sp_construct_spec:
  "\<exists>t. sp_construct_target_vessels self df tpos False = Inr t
     \<and> (\<forall>k. map_of t k =
            map_option (\<lambda>v. v\<lparr>tracks := filter (\<lambda>track. 2 \<le> length track) (tracks v)\<rparr>)
              (sp_map self tpos (sort_values self df) k))"
proof -
  from sp_loop_spec [of self tpos "sort_values self df"] obtain t where
    t: "sp_loop self tpos [] (sort_values self df) = Inr t"
       "map_of t = sp_map self tpos (sort_values self df)"
    by blast
  have "sp_construct_target_vessels self df tpos False = Inr (remove_single_obs t)"
    using t(1) by (simp add: sp_construct_target_vessels_def)
  then show ?thesis
    using t(2) by (simp add: map_of_remove_single_obs)
qed

lemma sorted_frame:
  assumes perm: "\<forall>d. mset (sort_values self d) = mset d"
    and srt: "\<forall>d. sorted (map r_timestamp (sort_values self d))"
    and dist: "distinct (map r_timestamp (filter (\<lambda>row. r_mmsi row = m) df))"
  shows "filter (\<lambda>row. r_mmsi row = m) (sort_values self df) =
         sort_values self (filter (\<lambda>row. r_mmsi row = m) df)"
proof (rule filter_sorted_unique [where xs = df and f = r_timestamp])
  show "mset (sort_values self df) = mset df" using perm by blast
  show "sorted (map r_timestamp (sort_values self df))" using srt by blast
  show "mset (sort_values self (filter (\<lambda>row. r_mmsi row = m) df)) =
        mset (filter (\<lambda>row. r_mmsi row = m) df)" using perm by blast
  show "sorted (map r_timestamp (sort_values self (filter (\<lambda>row. r_mmsi row = m) df)))"
    using srt by blast
  show "distinct (map r_timestamp (filter (\<lambda>row. r_mmsi row = m) df))" by (rule dist)
qed

lemma sp_tracks_of_frame:
  assumes perm: "\<forall>d. mset (sort_values self d) = mset d"
    and srt: "\<forall>d. sorted (map r_timestamp (sort_values self d))"
    and dist: "distinct (map r_timestamp (filter (\<lambda>row. r_mmsi row = m) df))"
    and whole: "\<forall>row\<in>set df. r_timestamp row \<in> \<int>"
  shows "map sp_message (filter (\<lambda>row. r_mmsi row = m) (sort_values self df)) =
         map (mp_message m) (sort_values self (filter (\<lambda>row. r_mmsi row = m) df))"
proof -
  let ?rows = "sort_values self (filter (\<lambda>row. r_mmsi row = m) df)"
  have "mset ?rows = mset (filter (\<lambda>row. r_mmsi row = m) df)" using perm by blast
  then have "set ?rows = set (filter (\<lambda>row. r_mmsi row = m) df)" by (rule mset_eq_setD)
  then have "\<forall>row\<in>set ?rows. r_mmsi row = m \<and> r_timestamp row \<in> \<int>"
    using whole by auto
  then have "map (mp_message m) ?rows = map sp_message ?rows"
    by (rule map_message_whole)
  then show ?thesis
    using sorted_frame [OF perm srt dist] by simp
qed

text \<open>
  C2 (as amended). Let the sort return a permutation of the rows ordered by timestamp, let
  the timestamps be whole seconds and pairwise distinct within each vessel, and call
  \<open>construct_target_vessels\<close> with \<open>overlap = False\<close> and \<open>skip_tsplit = False\<close>. Then
  the sequential path (\<open>njobs = 1\<close>) and the parallel path (\<open>njobs > 1\<close>) both return, with
  the same vessel keys, and for every vessel the tracks of the sequential result are the
  tracks of the parallel result without those of fewer than two reports, in the same
  order and with the same reports; so the tracks are identical whenever the parallel
  result has no track of fewer than two reports.
\<close>

theorem construct_paths_agree:
  assumes perm: "\<forall>d. mset (sort_values self d) = mset d"
    and srt: "\<forall>d. sorted (map r_timestamp (sort_values self d))"
    and dist: "\<forall>m. distinct (map r_timestamp (filter (\<lambda>row. r_mmsi row = m) df))"
    and whole: "\<forall>row\<in>set df. r_timestamp row \<in> \<int>"
    and njobs: "1 < njobs"
  shows "\<exists>sp mp.
      construct_target_vessels self df (Some tpos) False 1 False = Inr sp
    \<and> construct_target_vessels self df (Some tpos) False njobs False = Inr mp
    \<and> fst ` set sp = fst ` set mp
    \<and> (\<forall>k. map_option tracks (map_of sp k) =
             map_option (\<lambda>v. filter (\<lambda>track. 2 \<le> length track) (tracks v)) (map_of mp k))
    \<and> ((\<forall>v\<in>snd ` set mp. \<forall>track\<in>set (tracks v). 2 \<le> length track) \<longrightarrow>
         (\<forall>k. map_option tracks (map_of sp k) = map_option tracks (map_of mp k)))"
proof -
  from sp_construct_spec [of self df "Some tpos"] obtain sp where
    sp: "sp_construct_target_vessels self df (Some tpos) False = Inr sp"
    and sp_map: "\<And>k. map_of sp k =
            map_option (\<lambda>v. v\<lparr>tracks := filter (\<lambda>track. 2 \<le> length track) (tracks v)\<rparr>)
              (sp_map self (Some tpos) (sort_values self df) k)"
    by blast
  have "1 \<le> njobs" using njobs by simp
  from mp_construct_spec [OF perm this, of df] obtain mp where
    mp: "mp_construct_target_vessels self df njobs False = Inr mp"
    and mp_map: "\<And>k. map_of mp k =
            (if k \<in> r_mmsi ` set df then Some (mp_vessel self df k) else None)"
    by blast
  have keys: "r_mmsi ` set (sort_values self df) = r_mmsi ` set df"
    using perm mset_eq_setD by blast
  have rel: "map_option tracks (map_of sp k) =
             map_option (\<lambda>v. filter (\<lambda>track. 2 \<le> length track) (tracks v)) (map_of mp k)" for k
  proof (cases "k \<in> r_mmsi ` set df")
    case False
    then show ?thesis by (simp add: sp_map mp_map sp_map_def keys)
  next
    case True
    have d: "distinct (map r_timestamp (filter (\<lambda>row. r_mmsi row = k) df))"
      using dist by blast
    show ?thesis
      using True sp_tracks_of_frame [OF perm srt d whole]
      by (simp add: sp_map mp_map sp_map_def keys mp_vessel_def make_target_ship_def
          remove_short_keeps_long)
  qed
  have "dom (map_of sp) = dom (map_of mp)"
    by (auto simp: sp_map mp_map sp_map_def keys split: if_splits)
  then have same_keys: "fst ` set sp = fst ` set mp"
    by (simp add: dom_map_of_conv_image_fst)
  have clean: "map_option tracks (map_of sp k) = map_option tracks (map_of mp k)"
    if all: "\<forall>v\<in>snd ` set mp. \<forall>track\<in>set (tracks v). 2 \<le> length track" for k
  proof (cases "map_of mp k")
    case None
    with rel [of k] show ?thesis by simp
  next
    case (Some v)
    then have "(k, v) \<in> set mp" by (rule map_of_SomeD)
    then have "v \<in> snd ` set mp" by force
    with all have "\<forall>track\<in>set (tracks v). 2 \<le> length track"
      by blast
    then have "filter (\<lambda>track. 2 \<le> length track) (tracks v) = tracks v"
      by (simp add: filter_id_conv)
    with rel [of k] Some show ?thesis by simp
  qed
  have c1: "construct_target_vessels self df (Some tpos) False 1 False = Inr sp"
    using sp by (simp add: construct_target_vessels_def)
  have c2: "construct_target_vessels self df (Some tpos) False njobs False = Inr mp"
    using mp njobs by (simp add: construct_target_vessels_def)
  show ?thesis
  proof (intro exI conjI impI allI)
    show "construct_target_vessels self df (Some tpos) False 1 False = Inr sp" by (rule c1)
    show "construct_target_vessels self df (Some tpos) False njobs False = Inr mp" by (rule c2)
    show "fst ` set sp = fst ` set mp" by (rule same_keys)
    show "map_option tracks (map_of sp k) =
          map_option (\<lambda>v. filter (\<lambda>track. 2 \<le> length track) (tracks v)) (map_of mp k)" for k
      by (rule rel)
    show "map_option tracks (map_of sp k) = map_option tracks (map_of mp k)"
      if "\<forall>v\<in>snd ` set mp. \<forall>track\<in>set (tracks v). 2 \<le> length track" for k
      using that by (rule clean)
  qed
qed

theorem construct_paths_agree_witness:
  "(\<forall>d. mset (sort_values example_agent d) = mset d)
   \<and> (\<forall>d. sorted (map r_timestamp (sort_values example_agent d)))
   \<and> (\<forall>m. distinct (map r_timestamp
          (filter (\<lambda>row. r_mmsi row = m) [example_row 100, example_row 0, example_row 5000])))
   \<and> r_timestamp (example_row 100) \<in> \<int> \<and> r_timestamp (example_row 0) \<in> \<int>
   \<and> r_timestamp (example_row 5000) \<in> \<int> \<and> (1::int) < 4
   \<and> construct_target_vessels example_agent [example_row 100, example_row 0, example_row 5000]
         (Some (example_tpos 50)) False 1 False =
       Inr [(111, example_vessel (Some 50) [[sp_message (example_row 0), sp_message (example_row 100)]])]
   \<and> construct_target_vessels example_agent [example_row 100, example_row 0, example_row 5000]
         (Some (example_tpos 50)) False 4 False =
       Inr [(111, example_vessel None [[sp_message (example_row 0), sp_message (example_row 100)]])]"
  using construct_paths_agree [of example_agent
      "[example_row 100, example_row 0, example_row 5000]" 4 "example_tpos 50"]
  by (simp add: construct_target_vessels_def sp_construct_target_vessels_def
      mp_construct_target_vessels_def distribute_def pd_unique_def example_row_def
      impl_construct_target_vessel_def example_agent_def example_tpos_def example_vessel_def
      make_target_ship_def sp_step_def remove_single_obs_def sp_message_def
      append_to_last_def split_tracks_def py_last_def mp_message_def py_int_def gap_split_def
      remove_short.simps get_ship_type_def get_ship_length_def np_unique_def dict_update_def)

text \<open>
  C2 as stated fails. With three reports of one vessel at 0, 5000 and 10000 seconds, each
  more than the gap apart, the sequential path returns no track and the parallel path a
  track of one report. With timestamps 0.5 and 100.5 the sequential path keeps the fraction
  and the parallel path truncates it. With \<open>overlap = True\<close> and a query time outside the
  track only the sequential path drops the track. With \<open>skip_tsplit = True\<close> only the
  parallel path leaves the track unsplit.
\<close>

theorem construct_paths_agree_counterexample:
  "construct_target_vessels example_agent [example_row 0, example_row 5000, example_row 10000]
       (Some (example_tpos 50)) False 1 False =
     Inr [(111, example_vessel (Some 50) [])]
   \<and> construct_target_vessels example_agent [example_row 0, example_row 5000, example_row 10000]
       (Some (example_tpos 50)) False 4 False =
     Inr [(111, example_vessel None [[sp_message (example_row 5000)]])]
   \<and> construct_target_vessels example_agent [example_row 0.5, example_row 100.5]
       (Some (example_tpos 50)) False 1 False =
     Inr [(111, example_vessel (Some 50) [[sp_message (example_row 0.5), sp_message (example_row 100.5)]])]
   \<and> construct_target_vessels example_agent [example_row 0.5, example_row 100.5]
       (Some (example_tpos 50)) False 4 False =
     Inr [(111, example_vessel None [[sp_message (example_row 0), sp_message (example_row 100)]])]
   \<and> construct_target_vessels example_agent [example_row 0, example_row 100]
       (Some (example_tpos 200)) True 1 False =
     Inr [(111, example_vessel (Some 200) [])]
   \<and> construct_target_vessels example_agent [example_row 0, example_row 100]
       (Some (example_tpos 200)) True 4 False =
     Inr [(111, example_vessel None [[sp_message (example_row 0), sp_message (example_row 100)]])]
   \<and> construct_target_vessels example_agent [example_row 0, example_row 100, example_row 5000, example_row 5100]
       (Some (example_tpos 50)) False 1 True =
     Inr [(111, example_vessel (Some 50)
            [[sp_message (example_row 0), sp_message (example_row 100)],
             [sp_message (example_row 5000), sp_message (example_row 5100)]])]
   \<and> construct_target_vessels example_agent [example_row 0, example_row 100, example_row 5000, example_row 5100]
       (Some (example_tpos 50)) False 4 True =
     Inr [(111, example_vessel None
            [[sp_message (example_row 0), sp_message (example_row 100),
              sp_message (example_row 5000), sp_message (example_row 5100)]])]"
  by (simp add: construct_target_vessels_def sp_construct_target_vessels_def
      mp_construct_target_vessels_def distribute_def pd_unique_def example_row_def
      impl_construct_target_vessel_def example_agent_def example_tpos_def example_vessel_def
      make_target_ship_def sp_step_def remove_single_obs_def sp_message_def
      overlaps_search_date_def
      append_to_last_def split_tracks_def py_last_def mp_message_def py_int_def gap_split_def
      remove_short.simps get_ship_type_def get_ship_length_def np_unique_def dict_update_def)

lemma keep_overlapping_subset:
  "keep_overlapping trs tpos = Inr kept \<Longrightarrow> set kept \<subseteq> set trs"
proof (induction trs arbitrary: kept)
  case Nil
  then show ?case by simp
next
  case (Cons track rest)
  from Cons.prems obtain b where b: "overlaps_search_date track tpos = Inr b"
    by (cases "overlaps_search_date track tpos") simp_all
  from Cons.prems b obtain to_keep where k: "keep_overlapping rest tpos = Inr to_keep"
    by (cases "keep_overlapping rest tpos") simp_all
  from Cons.prems b k have "kept = (if b then track # to_keep else to_keep)" by simp
  with Cons.IH [OF k] show ?case by auto
qed

lemma filter_overlapping_long:
  "filter_overlapping t tpos = Inr t1 \<Longrightarrow>
   \<forall>v\<in>snd ` set t. \<forall>track\<in>set (tracks v). 2 \<le> length track \<Longrightarrow>
   \<forall>v\<in>snd ` set t1. \<forall>track\<in>set (tracks v). 2 \<le> length track"
proof (induction t arbitrary: t1)
  case Nil
  then show ?case by simp
next
  case (Cons kv rest)
  obtain k tgt where kv: "kv = (k, tgt)" by (cases kv)
  from Cons.prems(1) kv obtain to_keep where
    keep: "keep_overlapping (tracks tgt) tpos = Inr to_keep"
    by (cases "keep_overlapping (tracks tgt) tpos") simp_all
  from Cons.prems(1) kv keep obtain rest1 where
    r: "filter_overlapping rest tpos = Inr rest1"
    by (cases "filter_overlapping rest tpos") simp_all
  from Cons.prems(1) kv keep r have t1: "t1 = (k, tgt\<lparr>tracks := to_keep\<rparr>) # rest1" by simp
  have "\<forall>v\<in>snd ` set rest. \<forall>track\<in>set (tracks v). 2 \<le> length track"
    using Cons.prems(2) by simp
  from Cons.IH [OF r this]
  have tail: "\<forall>v\<in>snd ` set rest1. \<forall>track\<in>set (tracks v). 2 \<le> length track" .
  have "\<forall>track\<in>set (tracks tgt). 2 \<le> length track"
    using Cons.prems(2) kv by simp
  then have "\<forall>track\<in>set to_keep. 2 \<le> length track"
    using keep_overlapping_subset [OF keep] by blast
  with tail t1 show ?case by simp
qed

lemma remove_single_obs_long:
  "\<forall>v\<in>snd ` set (remove_single_obs t). \<forall>track\<in>set (tracks v). 2 \<le> length track"
proof (induction t)
  case Nil
  show ?case by (simp add: remove_single_obs_def)
next
  case (Cons kv rest)
  obtain k tgt where kv: "kv = (k, tgt)" by (cases kv)
  have "remove_single_obs (kv # rest) =
        (k, tgt\<lparr>tracks := filter (\<lambda>track. 2 \<le> length track) (tracks tgt)\<rparr>)
          # remove_single_obs rest"
    by (simp add: remove_single_obs_def kv)
  with Cons.IH show ?case by simp
qed

text \<open>
  On the single-process path every returned track has at least two reports, whatever the
  input and the flags.
\<close>

lemma sp_tracks_min_length:
  assumes "sp_construct_target_vessels self df tpos overlap = Inr t"
  shows "\<forall>v\<in>snd ` set t. \<forall>track\<in>set (tracks v). 2 \<le> length track"
proof -
  from assms obtain t0 where
    t0: "sp_loop self tpos [] (sort_values self df) = Inr t0"
    unfolding sp_construct_target_vessels_def
    by (cases "sp_loop self tpos [] (sort_values self df)") simp_all
  show ?thesis
  proof (cases overlap)
    case False
    with assms t0 have "t = remove_single_obs t0"
      by (simp add: sp_construct_target_vessels_def)
    then show ?thesis using remove_single_obs_long by simp
  next
    case True
    with assms t0 have "filter_overlapping (remove_single_obs t0) tpos = Inr t"
      by (simp add: sp_construct_target_vessels_def)
    then show ?thesis
      using remove_single_obs_long by (rule filter_overlapping_long)
  qed
qed

text \<open>
  C1 fails on the multiprocess path. Three reports of one vessel at 0, 5000 and 10000
  seconds make three tracks of one report each; the loop that removes the short tracks
  deletes the first, skips the second, deletes the third, and the vessel is returned with
  a track of a single report.
\<close>

theorem mp_keeps_single_report_track:
  "construct_target_vessels example_agent [example_row 0, example_row 5000, example_row 10000]
       None False 4 False =
     Inr [(111, example_vessel None [[mp_message 111 (example_row 5000)]])]
   \<and> remove_short 0 [[mp_message 111 (example_row 0)], [mp_message 111 (example_row 5000)],
                      [mp_message 111 (example_row 10000)]] =
     [[mp_message 111 (example_row 5000)]]"
  by (simp add: construct_target_vessels_def
      mp_construct_target_vessels_def distribute_def pd_unique_def example_row_def
      impl_construct_target_vessel_def example_agent_def example_vessel_def
      make_target_ship_def
      append_to_last_def split_tracks_def py_last_def mp_message_def py_int_def gap_split_def
      remove_short.simps get_ship_type_def get_ship_length_def np_unique_def dict_update_def)

text \<open>
  C3 fails on the code. The loop pairs the elements of \<open>target.tracks\<close>, which are tracks,
  not the reports of a track. A vessel with one track has no pair: its two reports, whose
  time-mean speed 0 lies outside the band from 10 to 10, are left as they are and nothing
  is counted, although the body of the loop, given the two reports, overwrites the later
  speed with 0. A vessel with two tracks has a pair of lists, and reading \<open>lat\<close> of a list
  raises AttributeError.
\<close>

theorem speed_correction_skips_reports:
  "speed_correction [(111, example_vessel None [[still_report 0, still_report 3600]])] 0 =
     Inr ([(111, [TrackList [still_report 0, still_report 3600]])], 0)
   \<and> speed_correction_pairs (Message (still_report 0)) [Message (still_report 3600)] 0 =
     Inr ([Message (still_report 0), Message ((still_report 3600)\<lparr>SOG := 0\<rparr>)], 1)
   \<and> speed_correction [(111, example_vessel None [example_track2, example_track5])] 0 =
     Inl AttributeError"
  by (simp add: example_vessel_def speed_correction_target_def time_mean_speed_def attr_def
      set_SOG_def still_report_def)

text \<open>
  C6 fails on the code, by the same loop over \<open>pairwise(target.tracks)\<close>. A vessel with
  one track has no pair: the later of its two reports keeps its position although the
  deviation 1 from the dead-reckoned position is within the tolerance 10, and the body of
  the loop, given the two reports, overwrites the position. A vessel with two tracks
  raises AttributeError.
\<close>

theorem position_correction_skips_reports:
  "position_correction [(111, example_vessel None [[drift_first, drift_second]])] 0 =
     Inr ([(111, [TrackList [drift_first, drift_second]])], 0)
   \<and> position_correction_pairs (Message drift_first) [Message drift_second] 0 =
     Inr ([Message drift_first, Message (drift_second\<lparr>lon := 0, lat := 0\<rparr>)], 1)
   \<and> position_correction [(111, example_vessel None [example_track2, example_track5])] 0 =
     Inl AttributeError"
  by (simp add: example_vessel_def position_correction_target_def attr_def
      set_lon_def set_lat_def drift_first_def drift_second_def break_down_velocity_def)

section \<open>Properties of the neighbour search\<close>

lemma finite_hits_missing: "finite_hits i (replicate m Infinity) indices = Inr []"
  by (induction m arbitrary: i) simp_all

lemma finite_hits_padded:
  "length ds = length ixs \<Longrightarrow> length pre = i \<Longrightarrow>
   finite_hits i (map Finite ds @ replicate m Infinity) (pre @ ixs @ post) = Inr ixs"
proof (induction ds arbitrary: ixs pre i)
  case Nil
  then show ?case by (simp add: finite_hits_missing)
next
  case (Cons a ds)
  then obtain b ixs1 where ixs: "ixs = b # ixs1" and len: "length ds = length ixs1"
    by (cases ixs) auto
  have rest: "finite_hits (i + 1) (map Finite ds @ replicate m Infinity)
                ((pre @ [b]) @ ixs1 @ post) = Inr ixs1"
    using Cons.prems(2) by (intro Cons.IH [OF len]) simp
  have at: "(pre @ ixs @ post) ! i = b"
    using Cons.prems(2) ixs by (simp add: nth_append)
  have inside: "i < length (pre @ ixs @ post)"
    using Cons.prems(2) ixs by simp
  show ?case
    using rest at inside ixs by simp
qed

lemma snd_distances: "map snd (distances pts x) = [0..<length pts]"
  by (simp add: distances_def comp_def)

lemma fst_distances:
  "hit \<in> set (distances pts x) \<Longrightarrow> fst hit = euclid (pts ! snd hit) x \<and> snd hit < length pts"
  by (auto simp: distances_def)

lemma nearest_hits:
  fixes at_bound pts x bound
  defines "W \<equiv> {i. i < length pts \<and> within_bound at_bound (euclid (pts ! i) x) bound}"
  shows "distinct (map snd (nearest at_bound pts x k bound))"
    and "set (map snd (nearest at_bound pts x k bound)) \<subseteq> W"
    and "length (nearest at_bound pts x k bound) = min k (card W)"
    and "card W \<le> k \<Longrightarrow> set (map snd (nearest at_bound pts x k bound)) = W"
proof -
  let ?hs = "filter (\<lambda>hit. within_bound at_bound (fst hit) bound) (distances pts x)"
  let ?sorted = "sort_key fst ?hs"
  have d0: "distinct (map snd (distances pts x))"
    by (simp add: snd_distances)
  have dh: "distinct (map snd ?hs)"
    using d0 by (rule distinct_map_filter)
  have set_hs: "snd ` set ?hs = W"
  proof
    show "snd ` set ?hs \<subseteq> W"
      using fst_distances [of _ pts x] by (auto simp: W_def)
    show "W \<subseteq> snd ` set ?hs"
    proof
      fix i assume "i \<in> W"
      then have i: "i < length pts" "within_bound at_bound (euclid (pts ! i) x) bound"
        by (simp_all add: W_def)
      then have "(euclid (pts ! i) x, i) \<in> set ?hs"
        by (simp add: distances_def)
      then show "i \<in> snd ` set ?hs" by force
    qed
  qed
  have m: "mset (map snd ?sorted) = mset (map snd ?hs)"
    by simp
  have ds: "distinct (map snd ?sorted)"
    using dh mset_eq_imp_distinct_iff [OF m] by blast
  have ss: "set (map snd ?sorted) = W"
    using set_hs by simp
  have len: "length ?sorted = card W"
    using distinct_card [OF ds] ss by simp
  have nearest: "nearest at_bound pts x k bound = take k ?sorted"
    by (simp add: nearest_def)
  show "distinct (map snd (nearest at_bound pts x k bound))"
    unfolding nearest using ds by (simp add: take_map [symmetric])
  show "set (map snd (nearest at_bound pts x k bound)) \<subseteq> W"
    unfolding nearest using ss set_take_subset [of k "map snd ?sorted"]
    by (simp add: take_map [symmetric])
  show "length (nearest at_bound pts x k bound) = min k (card W)"
    unfolding nearest using len by simp
  show "set (map snd (nearest at_bound pts x k bound)) = W" if "card W \<le> k"
    unfolding nearest using that len ss by simp
qed

lemma nearest_reports_result:
  assumes "2 \<le> k"
  shows "nearest_reports at_bound k filtered tpos search_radius =
         Inr (map (\<lambda>i. filtered ! i)
                (map snd (nearest at_bound (build_kd_tree filtered) (as_list tpos) (nat k)
                            (degrees search_radius))))"
proof (cases "filtered = []")
  case True
  then show ?thesis
    by (simp add: nearest_reports_def nearest_def distances_def build_kd_tree_def)
next
  case False
  let ?pts = "build_kd_tree filtered"
  let ?hits = "nearest at_bound ?pts (as_list tpos) (nat k) (degrees search_radius)"
  let ?missing = "nat k - length ?hits"
  have q: "query at_bound ?pts (as_list tpos) k (degrees search_radius) =
           Arrays (map Finite (map fst ?hits) @ replicate ?missing Infinity)
                  (map snd ?hits @ replicate ?missing (length ?pts))"
    using assms by (simp add: query_def Let_def comp_def)
  have fh: "finite_hits 0 (map Finite (map fst ?hits) @ replicate ?missing Infinity)
              ([] @ map snd ?hits @ replicate ?missing (length ?pts)) = Inr (map snd ?hits)"
    by (rule finite_hits_padded) simp_all
  have "set (map snd ?hits) \<subseteq> {i. i < length ?pts}"
    using nearest_hits(2) [where at_bound = at_bound and pts = ?pts and x = "as_list tpos"
        and k = "nat k" and bound = "degrees search_radius"]
    by blast
  then have "list_all (\<lambda>i. i < length filtered) (map snd ?hits)"
    by (auto simp: list_all_iff build_kd_tree_def)
  then have il: "iloc filtered (map snd ?hits) = Inr (map (\<lambda>i. filtered ! i) (map snd ?hits))"
    by (simp add: iloc_def)
  show ?thesis
    using False q fh il by (simp add: nearest_reports_def Let_def)
qed

text \<open>
  With a maximum of at least 2 results the search returns the rows at pairwise distinct
  positions of the time-windowed reports, all within the bound (the radius divided by 60,
  or no bound for an unbounded radius), as many as the maximum allows, and all of them
  when the maximum allows all.
\<close>

lemma neighbors_within_radius:
  fixes at_bound filtered tpos search_radius
  defines "W \<equiv> {i. i < length filtered
                  \<and> within_bound at_bound
                       (euclid (r_lat (filtered ! i), r_lon (filtered ! i)) (tp_lat tpos, tp_lon tpos))
                       (degrees search_radius)}"
  assumes k: "2 \<le> k"
  shows "\<exists>res. nearest_reports at_bound k filtered tpos search_radius =
                 Inr (map (\<lambda>i. filtered ! i) res)
              \<and> distinct res \<and> set res \<subseteq> W \<and> length res = min (nat k) (card W)
              \<and> (card W \<le> nat k \<longrightarrow> set res = W)"
proof -
  let ?pts = "build_kd_tree filtered"
  let ?res = "map snd (nearest at_bound ?pts (as_list tpos) (nat k) (degrees search_radius))"
  have W: "W = {i. i < length ?pts
                  \<and> within_bound at_bound (euclid (?pts ! i) (as_list tpos)) (degrees search_radius)}"
    by (auto simp: W_def build_kd_tree_def as_list_def)
  have "nearest_reports at_bound k filtered tpos search_radius = Inr (map (\<lambda>i. filtered ! i) ?res)"
    using k by (rule nearest_reports_result)
  moreover have "distinct ?res" by (rule nearest_hits(1))
  moreover have "set ?res \<subseteq> W" unfolding W by (rule nearest_hits(2))
  moreover have "length ?res = min (nat k) (card W)"
    unfolding W
    using nearest_hits(3) [where at_bound = at_bound and pts = ?pts and x = "as_list tpos"
        and k = "nat k" and bound = "degrees search_radius"]
    by simp
  moreover have "card W \<le> nat k \<longrightarrow> set ?res = W"
    unfolding W
    using nearest_hits(4) [where at_bound = at_bound and pts = ?pts and x = "as_list tpos"
        and k = "nat k" and bound = "degrees search_radius"]
    by blast
  ultimately show ?thesis by blast
qed

text \<open>
  C5 fails on the code when the maximum number of results is 1. The query then returns a
  float and an index instead of two arrays, \<open>enumerate(d)\<close> raises TypeError, and the one
  report, which lies at the query point and so within every radius, is not returned;
  with a maximum of 2 it is returned. This holds whichever way the library treats a point
  exactly at the bound.
\<close>

theorem neighbor_search_single_result_raises:
  "get_neighbors True (lone_report_agent 1) (example_tpos 0) (Finite 20) = Inl TypeError
   \<and> get_neighbors False (lone_report_agent 1) (example_tpos 0) (Finite 20) = Inl TypeError
   \<and> get_neighbors True (lone_report_agent 1) (example_tpos 0) Infinity = Inl TypeError
   \<and> get_neighbors True (lone_report_agent 2) (example_tpos 0) (Finite 20) = Inr [example_row 0]
   \<and> get_neighbors False (lone_report_agent 2) (example_tpos 0) (Finite 20) = Inr [example_row 0]"
  by (simp add: get_neighbors_def lone_report_agent_def time_filter_def py_int_def
      example_row_def example_tpos_def nearest_reports_def build_kd_tree_def as_list_def
      degrees_def query_def nearest_def distances_def euclid_def within_bound_def
      iloc_def Let_def)

end
